theory Spec2Isabelle
  imports Main "HOL-Library.Word"
begin

unbundle bit_operations_syntax

section \<open>Strings\<close>

text \<open>
  Python text is modelled as \<^typ>\<open>string\<close>, read as its UTF-8 bytes: the characters of
  ASCII are single bytes, and the dot, the colon and the two separators never occur
  inside the bytes of another code point, so that searching, slicing and comparing give
  in bytes what they give in code points.

  \<^verbatim>\<open>str.lower\<close> turns the capitals of ASCII into small letters and the Kelvin sign
  U+212A, whose bytes are \<open>E2 84 AA\<close>, into \<^verbatim>\<open>k\<close>. Every other code point beyond ASCII is
  mapped to text that holds a code point beyond ASCII. Both tables of the program are
  ASCII, so a string with such a code point in it is in neither table, lowered or not,
  and the model leaves the code point as it is.
\<close>

text \<open>The lowercase of one character of ASCII; any other byte is left as it is.\<close>

definition lower_ascii :: "char \<Rightarrow> char" where
  "lower_ascii c =
     (case map_of (zip ''ABCDEFGHIJKLMNOPQRSTUVWXYZ'' ''abcdefghijklmnopqrstuvwxyz'') c of
        None \<Rightarrow> c
      | Some d \<Rightarrow> d)"

definition kelvin_sign :: string where
  "kelvin_sign = [CHR 0xE2, CHR 0x84, CHR 0xAA]"

text \<open>
  \<^verbatim>\<open>s.lower()\<close>, on the bytes of \<open>s\<close>: the three bytes of a Kelvin sign give \<^verbatim>\<open>k\<close>,
  any other byte gives its lowercase in ASCII.
\<close>

fun lower :: "string \<Rightarrow> string" where
  "lower (a # b # c # rest) =
     (if [a, b, c] = kelvin_sign then CHR ''k'' # lower rest
      else lower_ascii a # lower (b # c # rest))"
| "lower (a # rest) = lower_ascii a # lower rest"
| "lower [] = []"

text \<open>\<^verbatim>\<open>s.rfind(c)\<close>: the index of the last occurrence, or \<open>-1\<close>.\<close>

fun rfind :: "char \<Rightarrow> string \<Rightarrow> int" where
  "rfind c [] = - 1"
| "rfind c (x # xs) =
     (let r = rfind c xs in if 0 \<le> r then r + 1 else if x = c then 0 else - 1)"

text \<open>\<^verbatim>\<open>s.replace(c, '')\<close> for a one-character pattern.\<close>

definition remove_char :: "char \<Rightarrow> string \<Rightarrow> string" where
  "remove_char c s = filter (\<lambda>x. x \<noteq> c) s"

text \<open>\<^verbatim>\<open>s.startswith(c)\<close> for a one-character prefix.\<close>

definition startswith :: "string \<Rightarrow> char \<Rightarrow> bool" where
  "startswith s c = (case s of [] \<Rightarrow> False | x # _ \<Rightarrow> x = c)"

text \<open>The decimal numeral of a counter, as an f-string prints it.\<close>

definition digit_char :: "nat \<Rightarrow> char" where
  "digit_char d = ''0123456789'' ! d"

function str_nat :: "nat \<Rightarrow> string" where
  "str_nat n = (if n < 10 then [digit_char n] else str_nat (n div 10) @ [digit_char (n mod 10)])"
  by pat_completeness auto
termination
  by (relation "measure id") auto

declare str_nat.simps [simp del]

section \<open>Paths\<close>

text \<open>
  A \<^verbatim>\<open>pathlib\<close> path is its drive, its root and the components after the anchor.
  On a POSIX flavour the drive is always empty; on Windows \<^verbatim>\<open>C:\Users\a.jpg\<close> has
  drive \<^verbatim>\<open>C:\<close>, root \<^verbatim>\<open>\\<close> and two components.
\<close>

record path =
  drive :: string
  root :: string
  tail :: "string list"

definition name :: "path \<Rightarrow> string" where
  "name p = (if tail p = [] then '''' else last (tail p))"

definition parent :: "path \<Rightarrow> path" where
  "parent p = (if tail p = [] then p else p\<lparr>tail := butlast (tail p)\<rparr>)"

definition parts :: "path \<Rightarrow> string list" where
  "parts p = (if drive p @ root p = [] then [] else [drive p @ root p]) @ tail p"

definition path_suffix :: "path \<Rightarrow> string" where
  "path_suffix p =
     (let nm = name p; i = rfind CHR ''.'' nm
      in if 0 < i \<and> i < int (length nm) - 1 then drop (nat i) nm else '''')"

definition stem :: "path \<Rightarrow> string" where
  "stem p =
     (let nm = name p; i = rfind CHR ''.'' nm
      in if 0 < i \<and> i < int (length nm) - 1 then take (nat i) nm else nm)"

text \<open>
  \<^verbatim>\<open>p / s\<close> for a string \<open>s\<close> that is one path component: a directory or file name as
  \<^verbatim>\<open>pathlib\<close> and \<^verbatim>\<open>os.walk\<close> yield them, a category key, a drive token with its
  separators removed. Joining the empty string changes nothing.
\<close>

definition join1 :: "path \<Rightarrow> string \<Rightarrow> path" where
  "join1 p s = (if s = [] then p else p\<lparr>tail := tail p @ [s]\<rparr>)"

section \<open>Static tables\<close>

definition FILE_CATEGORIES :: "(string \<times> string list) list" where
  "FILE_CATEGORIES =
     [(''pictures'', [''.jpg'', ''.jpeg'', ''.png'', ''.gif'', ''.bmp'', ''.webp'', ''.svg'',
                     ''.tiff'', ''.tif'', ''.ico'', ''.heic'', ''.raw'']),
      (''audio'', [''.mp3'', ''.wav'', ''.flac'', ''.m4a'', ''.aac'', ''.ogg'', ''.wma'',
                  ''.opus'', ''.ape'', ''.alac'']),
      (''video'', [''.mp4'', ''.avi'', ''.mkv'', ''.mov'', ''.wmv'', ''.flv'', ''.webm'',
                  ''.m4v'', ''.mpg'', ''.mpeg'', ''.3gp'']),
      (''text'', [''.txt'', ''.pdf'', ''.doc'', ''.docx'', ''.rtf'', ''.odt'', ''.md'',
                 ''.epub'', ''.mobi''])]"

definition EXCLUDED_DIRS :: "string list" where
  "EXCLUDED_DIRS =
     [''windows'', ''program files'', ''program files (x86)'', ''programdata'',
      ''$recycle.bin'', ''system volume information'', ''$windows.~bt'', ''$windows.~ws'',
      ''recovery'', ''boot'', ''msocache'', ''perflogs'',
      ''appdata'', ''temp'', ''tmp'', ''cache'', ''caches'',
      ''node_modules'', ''venv'', ''__pycache__'', ''.venv'', ''env'',
      ''build'', ''dist'', ''.next'', ''.nuxt'', ''target'',
      ''.git'', ''.svn'', ''.hg'',
      ''.cache'', ''.config'', ''.vscode'', ''.idea'']"

section \<open>Exclusion policy and classifier\<close>

text \<open>
  \<^verbatim>\<open>should_exclude_directory\<close>. The \<^verbatim>\<open>try\<close> around the third test guards
  \<^verbatim>\<open>path.parts\<close>, which does not raise on a path value, so the model has no branch
  for its handler.
\<close>

definition should_exclude_directory :: "path \<Rightarrow> bool" where
  "should_exclude_directory p =
     (if startswith (name p) CHR ''.'' then True
      else if lower (name p) \<in> set EXCLUDED_DIRS then True
      else (let parts_lower = map lower (parts p)
            in list_ex (\<lambda>excluded. excluded \<in> set parts_lower) EXCLUDED_DIRS))"

text \<open>
  \<^verbatim>\<open>get_file_category\<close>: the categories are tried in the order of the table and the
  first one whose extension set holds the lowercased suffix is returned.
\<close>

fun first_category :: "string \<Rightarrow> (string \<times> string list) list \<Rightarrow> string option" where
  "first_category extension [] = None"
| "first_category extension ((category, extensions) # rest) =
     (if extension \<in> set extensions then Some category else first_category extension rest)"

definition get_file_category :: "path \<Rightarrow> string option" where
  "get_file_category file_path = first_category (lower (path_suffix file_path)) FILE_CATEGORIES"

section \<open>The filesystem under the output root\<close>

text \<open>
  The operating system is not part of the program, so its state is a value that the
  linking functions take and return. An entry is stored under the path by which it is
  named: components are compared as written, \<^verbatim>\<open>..\<close> is not resolved and aliases through
  linked directories are not tracked. Two fields say what the operating system refuses
  for reasons that are not the shape of the tree. \<open>unreadable\<close> holds for the paths that
  cannot be resolved at all, a name that is too long or a folder on the way that may not
  be searched: every call on such a path, reading its status or creating it, raises.
  \<open>denied\<close> holds where an entry may not be created (missing privilege, read-only or
  foreign volume). Both refusals are raised as \<^verbatim>\<open>PermissionError\<close>, which stands for
  every \<^verbatim>\<open>OSError\<close> that is neither \<^verbatim>\<open>FileExistsError\<close> nor one of those that
  \<^verbatim>\<open>pathlib\<close> takes for "not there".
\<close>

datatype node = Dir | File | Link path

datatype os_error =
  FileExistsError | FileNotFoundError | NotADirectoryError | PermissionError | TooManyLinks

record fs =
  entries :: "(path \<times> node) list"
  denied :: "path \<Rightarrow> bool"
  unreadable :: "path \<Rightarrow> bool"

definition lookup :: "fs \<Rightarrow> path \<Rightarrow> node option" where
  "lookup s p = map_of (entries s) p"

definition add_entry :: "path \<Rightarrow> node \<Rightarrow> fs \<Rightarrow> fs" where
  "add_entry p n s = s\<lparr>entries := (p, n) # entries s\<rparr>"

text \<open>
  The text of a symbolic link is read from the directory that holds the link, unless it
  is anchored by a drive or a root.
\<close>

definition is_anchored :: "path \<Rightarrow> bool" where
  "is_anchored p = (\<not> (drive p = [] \<and> root p = []))"

definition link_referent :: "path \<Rightarrow> path \<Rightarrow> path" where
  "link_referent p src =
     (if is_anchored src then src else (parent p)\<lparr>tail := tail (parent p) @ tail src\<rparr>)"

text \<open>
  \<^verbatim>\<open>os.stat\<close> follows symbolic links, at most \<open>MAXSYMLINKS\<close> of them. It raises
  \<^verbatim>\<open>FileNotFoundError\<close> for a missing entry and for a dangling link, the error of
  \<open>ELOOP\<close> for a loop of links, and \<^verbatim>\<open>PermissionError\<close> for a path that cannot be
  resolved.
\<close>

definition MAXSYMLINKS :: nat where
  "MAXSYMLINKS = 40"

fun stat_fuel :: "nat \<Rightarrow> fs \<Rightarrow> path \<Rightarrow> os_error + node" where
  "stat_fuel 0 s p = Inl TooManyLinks"
| "stat_fuel (Suc n) s p =
     (if unreadable s p then Inl PermissionError
      else (case lookup s p of
              None \<Rightarrow> Inl FileNotFoundError
            | Some (Link src) \<Rightarrow> stat_fuel n s (link_referent p src)
            | Some nd \<Rightarrow> Inr nd))"

definition os_stat :: "fs \<Rightarrow> path \<Rightarrow> os_error + node" where
  "os_stat s p = stat_fuel (Suc MAXSYMLINKS) s p"

text \<open>
  \<^verbatim>\<open>Path.exists\<close> and \<^verbatim>\<open>Path.is_dir\<close> of \<^verbatim>\<open>pathlib\<close>: the errors of
  \<open>ENOENT\<close>, \<open>ENOTDIR\<close> and \<open>ELOOP\<close> mean \<^verbatim>\<open>False\<close>, every other error of
  \<^verbatim>\<open>os.stat\<close> is raised again.
\<close>

definition ignore_error :: "os_error \<Rightarrow> bool" where
  "ignore_error e = (e = FileNotFoundError \<or> e = NotADirectoryError \<or> e = TooManyLinks)"

definition path_exists :: "fs \<Rightarrow> path \<Rightarrow> os_error + bool" where
  "path_exists s p =
     (case os_stat s p of
        Inl e \<Rightarrow> if ignore_error e then Inr False else Inl e
      | Inr nd \<Rightarrow> Inr True)"

definition is_dir :: "fs \<Rightarrow> path \<Rightarrow> os_error + bool" where
  "is_dir s p =
     (case os_stat s p of
        Inl e \<Rightarrow> if ignore_error e then Inr False else Inl e
      | Inr nd \<Rightarrow> Inr (nd = Dir))"

text \<open>
  Creating one entry, as \<^verbatim>\<open>os.mkdir\<close> and \<^verbatim>\<open>os.symlink\<close> do: the path must be
  resolvable, the name must be free (the entry itself is looked at, a link there is not
  followed), the parent must be a directory and the creation must be allowed. A failed
  call leaves the state as it was.
\<close>

definition create_entry :: "path \<Rightarrow> node \<Rightarrow> fs \<Rightarrow> os_error + fs" where
  "create_entry p n s =
     (if unreadable s p then Inl PermissionError
      else if lookup s p \<noteq> None then Inl FileExistsError
      else (case os_stat s (parent p) of
              Inl e \<Rightarrow> Inl e
            | Inr nd \<Rightarrow>
                if nd \<noteq> Dir then Inl NotADirectoryError
                else if denied s p then Inl PermissionError
                else Inr (add_entry p n s)))"

definition os_mkdir :: "path \<Rightarrow> fs \<Rightarrow> os_error + fs" where
  "os_mkdir p s = create_entry p Dir s"

definition os_symlink :: "path \<Rightarrow> path \<Rightarrow> fs \<Rightarrow> os_error + fs" where
  "os_symlink src dst s = create_entry dst (Link src) s"

text \<open>
  \<^verbatim>\<open>Path.mkdir(parents=True, exist_ok=True)\<close>, after the library's source: the directory
  is made; when its parent is missing the parent is made first, by the same procedure,
  and the directory is made again with \<^verbatim>\<open>parents=False\<close>; any other error is swallowed
  when \<^verbatim>\<open>is_dir()\<close> says that the path is a directory already, and an error that
  \<^verbatim>\<open>is_dir()\<close> raises takes its place. The result is the error raised, if any, and the
  state, which keeps the ancestors made before a failure.
\<close>

definition exist_ok :: "os_error \<Rightarrow> path \<Rightarrow> fs \<Rightarrow> os_error option \<times> fs" where
  "exist_ok e p s =
     (case is_dir s p of
        Inl e' \<Rightarrow> (Some e', s)
      | Inr b \<Rightarrow> if b then (None, s) else (Some e, s))"

function mkdir_parents :: "path \<Rightarrow> fs \<Rightarrow> os_error option \<times> fs" where
  "mkdir_parents p s =
     (case os_mkdir p s of
        Inr s' \<Rightarrow> (None, s')
      | Inl e \<Rightarrow>
          if e = FileNotFoundError then
            (if parent p = p then (Some e, s)
             else (case mkdir_parents (parent p) s of
                     (Some e', s1) \<Rightarrow> (Some e', s1)
                   | (None, s1) \<Rightarrow>
                       (case os_mkdir p s1 of
                          Inr s2 \<Rightarrow> (None, s2)
                        | Inl e2 \<Rightarrow>
                            if e2 = FileNotFoundError then (Some e2, s1)
                            else exist_ok e2 p s1)))
          else exist_ok e p s)"
  by pat_completeness auto
termination
  by (relation "measure (\<lambda>(p, s). length (tail p))") (auto simp: parent_def split: if_splits)

declare mkdir_parents.simps [simp del]

section \<open>Link planner\<close>

text \<open>
  Lines 191 to 197 of \<^verbatim>\<open>create_hybrid_structure\<close>: the name of the folder under the
  category. Nothing in the \<^verbatim>\<open>try\<close> block raises on a path value, so the handler that
  assigns \<^verbatim>\<open>'root'\<close> is never entered and the model has no branch for it.
\<close>

definition parent_name :: "path \<Rightarrow> string" where
  "parent_name source_file =
     (let pn = name (parent source_file)
      in if pn = [] \<or> pn = [CHR 0x5C] \<or> pn = ''/''
         then remove_char (CHR 0x5C) (remove_char CHR '':'' (drive source_file))
         else pn)"

definition numbered_name :: "path \<Rightarrow> nat \<Rightarrow> string" where
  "numbered_name source_file counter =
     stem source_file @ ''_'' @ str_nat counter @ path_suffix source_file"

text \<open>
  The loop of lines 207 to 211 ends because the numbered names are pairwise different
  and the filesystem holds finitely many entries: reading a numeral back gives the
  number, so \<open>str_nat\<close> is injective.
\<close>

definition digit_val :: "char \<Rightarrow> nat" where
  "digit_val c = (case map_of (zip ''0123456789'' [0 ..< 10]) c of None \<Rightarrow> 0 | Some d \<Rightarrow> d)"

definition nat_str :: "string \<Rightarrow> nat" where
  "nat_str s = foldl (\<lambda>a c. 10 * a + digit_val c) 0 s"

lemma digit_val_char: "d < 10 \<Longrightarrow> digit_val (digit_char d) = d"
proof -
  assume "d < 10"
  then have "d \<in> {0,1,2,3,4,5,6,7,8,9}" by auto
  then show ?thesis
    by (auto simp: digit_val_def digit_char_def upt_rec)
qed

lemma nat_str_str_nat: "nat_str (str_nat n) = n"
proof (induction n rule: str_nat.induct)
  case (1 n)
  show ?case
  proof (cases "n < 10")
    case True
    then show ?thesis by (subst str_nat.simps) (simp add: nat_str_def digit_val_char)
  next
    case False
    with 1 have "nat_str (str_nat (n div 10)) = n div 10" by simp
    with False show ?thesis
      by (subst str_nat.simps) (simp add: nat_str_def digit_val_char)
  qed
qed

lemma str_nat_inj: "str_nat a = str_nat b \<Longrightarrow> a = b"
  by (metis nat_str_str_nat)

lemma numbered_name_inj: "numbered_name f a = numbered_name f b \<Longrightarrow> a = b"
  by (simp add: numbered_name_def str_nat_inj)

lemma numbered_name_nonempty: "numbered_name f a \<noteq> []"
  by (simp add: numbered_name_def)

lemma join1_inj: "a \<noteq> [] \<Longrightarrow> b \<noteq> [] \<Longrightarrow> join1 d a = join1 d b \<Longrightarrow> a = b"
  by (auto simp: join1_def dest!: arg_cong [where f = tail])

lemma stat_fuel_lookup: "stat_fuel n s p = Inr nd \<Longrightarrow> lookup s p \<noteq> None"
  by (cases n) (auto split: option.splits if_splits)

lemma path_exists_lookup: "path_exists s p = Inr True \<Longrightarrow> lookup s p \<noteq> None"
  using stat_fuel_lookup [of "Suc MAXSYMLINKS" s p]
  by (auto simp: path_exists_def os_stat_def simp del: stat_fuel.simps split: sum.splits if_splits)

definition occupied :: "fs \<Rightarrow> path \<Rightarrow> path \<Rightarrow> nat \<Rightarrow> nat set" where
  "occupied s target_dir source_file c =
     {k. c \<le> k \<and> lookup s (join1 target_dir (numbered_name source_file k)) \<noteq> None}"

lemma finite_occupied: "finite (occupied s d f c)"
proof -
  let ?g = "\<lambda>k. join1 d (numbered_name f k)"
  have inj: "inj ?g"
    by (rule injI) (metis join1_inj numbered_name_inj numbered_name_nonempty)
  have "occupied s d f c \<subseteq> ?g -` dom (map_of (entries s))"
    by (auto simp: occupied_def lookup_def)
  moreover have "finite (?g -` dom (map_of (entries s)))"
    using inj by (intro finite_vimageI) (simp_all add: finite_dom_map_of)
  ultimately show ?thesis by (rule finite_subset)
qed

lemma occupied_step:
  "card (occupied s d f (Suc c)) +
     (if path_exists s (join1 d (numbered_name f c)) = Inr True then 1 else 0) \<le> card (occupied s d f c)"
proof -
  have sub: "occupied s d f (Suc c) \<subseteq> occupied s d f c"
    by (auto simp: occupied_def)
  show ?thesis
  proof (cases "path_exists s (join1 d (numbered_name f c)) = Inr True")
    case True
    then have "c \<in> occupied s d f c" "c \<notin> occupied s d f (Suc c)"
      by (auto simp: occupied_def dest: path_exists_lookup)
    with sub have "occupied s d f (Suc c) \<subset> occupied s d f c" by blast
    then have "card (occupied s d f (Suc c)) < card (occupied s d f c)"
      by (rule psubset_card_mono [OF finite_occupied])
    with True show ?thesis by simp
  next
    case False
    with sub show ?thesis by (simp add: card_mono finite_occupied)
  qed
qed

text \<open>
  The \<^verbatim>\<open>while\<close> loop of \<^verbatim>\<open>create_hybrid_structure\<close>, with its two variables
  \<open>target_path\<close> and \<open>counter\<close>. An error that \<^verbatim>\<open>exists()\<close> raises leaves the loop
  and the function.
\<close>

function unique_target :: "fs \<Rightarrow> path \<Rightarrow> path \<Rightarrow> path \<Rightarrow> nat \<Rightarrow> os_error + path" where
  "unique_target s target_dir source_file target_path counter =
     (case path_exists s target_path of
        Inl e \<Rightarrow> Inl e
      | Inr b \<Rightarrow>
          if b then unique_target s target_dir source_file
                 (join1 target_dir (numbered_name source_file counter)) (counter + 1)
          else Inr target_path)"
  by pat_completeness auto
termination
proof (relation "measure (\<lambda>(s, d, f, t, c).
         card (occupied s d f c) + (if path_exists s t = Inr True then 1 else 0))", goal_cases)
  case 1
  show ?case by simp
next
  case (2 s d f t c b)
  with occupied_step [of s d f c] show ?case by simp
qed

declare unique_target.simps [simp del]

definition target_dir_of :: "string \<Rightarrow> path \<Rightarrow> path \<Rightarrow> path" where
  "target_dir_of category source_file base_output_dir =
     join1 (join1 base_output_dir category) (parent_name source_file)"

text \<open>
  \<^verbatim>\<open>create_hybrid_structure\<close>: the path returned, or the error that \<^verbatim>\<open>mkdir\<close> or
  \<^verbatim>\<open>exists\<close> raised, and the state of the filesystem afterwards.
\<close>

definition create_hybrid_structure ::
  "string \<Rightarrow> path \<Rightarrow> path \<Rightarrow> bool \<Rightarrow> fs \<Rightarrow> (os_error + path) \<times> fs" where
  "create_hybrid_structure category source_file base_output_dir dry_run s =
     (let target_dir = target_dir_of category source_file base_output_dir
      in case (if \<not> dry_run then mkdir_parents target_dir s else (None, s)) of
           (Some e, s1) \<Rightarrow> (Inl e, s1)
         | (None, s1) \<Rightarrow>
             (unique_target s1 target_dir source_file (join1 target_dir (name source_file)) 1,
              s1))"

section \<open>Link materializer\<close>

text \<open>
  The body of the inner loop of \<^verbatim>\<open>create_symbolic_links\<close> leaves its \<^verbatim>\<open>try\<close>
  statement in one of three ways, each of which adds one to one counter: at the end of
  the block (\<open>created\<close>; in a dry run this means "would create"), in the handler of
  \<^verbatim>\<open>FileExistsError\<close> (\<open>skipped\<close>), or in the handler of \<^verbatim>\<open>OSError\<close>
  (\<open>failed\<close>). The last handler, for any other exception, counts a failure too; the
  calls of the block raise operating system errors only. \<open>link_file\<close> is that body
  and returns which exit was taken; the \<^verbatim>\<open>print\<close> calls are left out.
\<close>

datatype outcome = Created path | Skipped | Failed os_error

record stats =
  created :: int
  failed :: int
  skipped :: int

definition handler :: "os_error \<Rightarrow> outcome" where
  "handler e = (if e = FileExistsError then Skipped else Failed e)"

definition link_file :: "bool \<Rightarrow> path \<Rightarrow> string \<Rightarrow> path \<Rightarrow> fs \<Rightarrow> outcome \<times> fs" where
  "link_file dry_run output_dir category source_file s =
     (case create_hybrid_structure category source_file output_dir dry_run s of
        (Inl e, s1) \<Rightarrow> (handler e, s1)
      | (Inr target_path, s1) \<Rightarrow>
          if dry_run then (Created target_path, s1)
          else (case os_symlink source_file target_path s1 of
                  Inl e \<Rightarrow> (handler e, s1)
                | Inr s2 \<Rightarrow> (Created target_path, s2)))"

definition count_outcome :: "outcome \<Rightarrow> stats \<Rightarrow> stats" where
  "count_outcome oc st =
     (case oc of
        Created _ \<Rightarrow> st\<lparr>created := created st + 1\<rparr>
      | Skipped \<Rightarrow> st\<lparr>skipped := skipped st + 1\<rparr>
      | Failed _ \<Rightarrow> st\<lparr>failed := failed st + 1\<rparr>)"

text \<open>The inner loop, over the files of one category.\<close>

fun link_files :: "bool \<Rightarrow> path \<Rightarrow> string \<Rightarrow> path list \<Rightarrow> stats \<times> fs \<Rightarrow> stats \<times> fs" where
  "link_files dry_run output_dir category [] (st, s) = (st, s)"
| "link_files dry_run output_dir category (source_file # files) (st, s) =
     (case link_file dry_run output_dir category source_file s of
        (oc, s') \<Rightarrow> link_files dry_run output_dir category files (count_outcome oc st, s'))"

text \<open>The outer loop, over the items of the dictionary in their order.\<close>

fun link_categories ::
  "bool \<Rightarrow> path \<Rightarrow> (string \<times> path list) list \<Rightarrow> stats \<times> fs \<Rightarrow> stats \<times> fs" where
  "link_categories dry_run output_dir [] acc = acc"
| "link_categories dry_run output_dir ((category, files) # rest) acc =
     link_categories dry_run output_dir rest (link_files dry_run output_dir category files acc)"

definition create_symbolic_links ::
  "(string \<times> path list) list \<Rightarrow> path \<Rightarrow> bool \<Rightarrow> fs \<Rightarrow> stats \<times> fs" where
  "create_symbolic_links files_by_category output_dir dry_run s =
     link_categories dry_run output_dir files_by_category
       (\<lparr>created = 0, failed = 0, skipped = 0\<rparr>, s)"

text \<open>
  The outcome of every file of a run, in the order of processing. The program does not
  keep this list; it is read off the same loop body, to state properties of single files.
\<close>

fun file_outcomes :: "bool \<Rightarrow> path \<Rightarrow> string \<Rightarrow> path list \<Rightarrow> fs \<Rightarrow> (path \<times> outcome) list" where
  "file_outcomes dry_run output_dir category [] s = []"
| "file_outcomes dry_run output_dir category (source_file # files) s =
     (case link_file dry_run output_dir category source_file s of
        (oc, s') \<Rightarrow> (source_file, oc) # file_outcomes dry_run output_dir category files s')"

fun run_outcomes ::
  "bool \<Rightarrow> path \<Rightarrow> (string \<times> path list) list \<Rightarrow> fs \<Rightarrow> (path \<times> outcome) list" where
  "run_outcomes dry_run output_dir [] s = []"
| "run_outcomes dry_run output_dir ((category, files) # rest) s =
     file_outcomes dry_run output_dir category files s @
     run_outcomes dry_run output_dir rest
       (snd (link_files dry_run output_dir category files (\<lparr>created = 0, failed = 0, skipped = 0\<rparr>, s)))"

fun created_targets :: "(path \<times> outcome) list \<Rightarrow> path list" where
  "created_targets [] = []"
| "created_targets ((f, Created t) # r) = t # created_targets r"
| "created_targets ((f, oc) # r) = created_targets r"


section \<open>Tree scanner\<close>

text \<open>
  What \<^verbatim>\<open>os.walk\<close> and \<^verbatim>\<open>stat\<close> see of the scanned volumes. A file carries the result
  of reading its attributes: the call fails with \<^verbatim>\<open>OSError\<close>, or the platform has no
  \<^verbatim>\<open>st_file_attributes\<close> (\<^verbatim>\<open>AttributeError\<close>), or the attribute word is read. A directory
  carries whether \<^verbatim>\<open>os.walk\<close> lists it: it does not when the directory cannot be read
  (the error is swallowed by \<^verbatim>\<open>os.walk\<close>, whose \<open>onerror\<close> is not set) or when it is a
  symbolic link (links are not followed).
\<close>

datatype stat_result = StatOSError | NoFileAttributes | FileAttributes "32 word"

datatype fsnode = FileNode string stat_result | DirNode string bool "fsnode list"

record scan_state =
  found_files :: "(string \<times> path list) list"
  scanned_count :: int
  skipped_count :: int

text \<open>
  The progress callback: its result says how a call ends. It returns, or it raises an
  exception of class \<^verbatim>\<open>Exception\<close>, which the handlers of lines 162 to 167 catch, or
  it raises another \<^verbatim>\<open>BaseException\<close> (\<^verbatim>\<open>KeyboardInterrupt\<close>, \<^verbatim>\<open>SystemExit\<close>),
  which no handler of the program catches. A callback that returns has no effect on the
  scan. The same three values say how a block of the scanner is left.
\<close>

datatype signal = Returns | RaisesException | RaisesBaseException

type_synonym observer = "int \<Rightarrow> string \<Rightarrow> path \<Rightarrow> signal"

definition call :: "observer option \<Rightarrow> int \<Rightarrow> string \<Rightarrow> path \<Rightarrow> signal" where
  "call progress_callback n category file_path =
     (case progress_callback of None \<Rightarrow> Returns | Some f \<Rightarrow> f n category file_path)"

text \<open>\<^verbatim>\<open>found_files[category].append(file_path)\<close> on a \<^verbatim>\<open>defaultdict(list)\<close>.\<close>

fun add_found :: "string \<Rightarrow> path \<Rightarrow> (string \<times> path list) list \<Rightarrow> (string \<times> path list) list" where
  "add_found category file_path [] = [(category, [file_path])]"
| "add_found category file_path ((k, v) # rest) =
     (if k = category then (k, v @ [file_path]) # rest
      else (k, v) # add_found category file_path rest)"

text \<open>The test of lines 146 to 151: the system bit of the attributes, when they can be read.\<close>

definition is_system_file :: "stat_result \<Rightarrow> bool" where
  "is_system_file r = (case r of FileAttributes a \<Rightarrow> a AND 0x4 \<noteq> 0 | _ \<Rightarrow> False)"

text \<open>
  The body of the loop over \<open>files\<close>, for one file. The second component of the result
  says how the body is left.
\<close>

definition scan_file ::
  "observer option \<Rightarrow> path \<Rightarrow> string \<Rightarrow> stat_result \<Rightarrow> scan_state \<Rightarrow> scan_state \<times> signal" where
  "scan_file progress_callback root_path file r st =
     (let file_path = join1 root_path file
      in if is_system_file r then (st\<lparr>skipped_count := skipped_count st + 1\<rparr>, Returns)
         else (case get_file_category file_path of
                 None \<Rightarrow> (st, Returns)
               | Some category \<Rightarrow>
                   (let st' = st\<lparr>found_files := add_found category file_path (found_files st),
                                 scanned_count := scanned_count st + 1\<rparr>
                    in (st', if progress_callback \<noteq> None \<and> scanned_count st' mod 100 = 0
                             then call progress_callback (scanned_count st') category file_path
                             else Returns))))"

fun scan_files ::
  "observer option \<Rightarrow> path \<Rightarrow> (string \<times> stat_result) list \<Rightarrow> scan_state \<Rightarrow> scan_state \<times> signal" where
  "scan_files progress_callback root_path [] st = (st, Returns)"
| "scan_files progress_callback root_path ((file, r) # files) st =
     (case scan_file progress_callback root_path file r st of
        (st', Returns) \<Rightarrow> scan_files progress_callback root_path files st'
      | (st', raised) \<Rightarrow> (st', raised))"

fun files_of :: "fsnode list \<Rightarrow> (string \<times> stat_result) list" where
  "files_of [] = []"
| "files_of (FileNode file r # rest) = (file, r) # files_of rest"
| "files_of (DirNode d listable children # rest) = files_of rest"

text \<open>
  The walk below a directory whose own files have been processed: the subdirectories in
  their order, each one pruned when \<^verbatim>\<open>should_exclude_directory\<close> says so (the program
  filters \<open>dirs\<close> before the files of the directory are processed; the predicate reads the
  path only, so the moment of the test does not matter), not entered when it cannot be
  listed, and otherwise walked top-down: its files first, then its subdirectories.
\<close>

fun walk_dirs ::
  "observer option \<Rightarrow> path \<Rightarrow> fsnode list \<Rightarrow> scan_state \<Rightarrow> scan_state \<times> signal" where
  "walk_dirs progress_callback root_path [] st = (st, Returns)"
| "walk_dirs progress_callback root_path (FileNode file r # rest) st =
     walk_dirs progress_callback root_path rest st"
| "walk_dirs progress_callback root_path (DirNode d listable children # rest) st =
     (if should_exclude_directory (join1 root_path d) \<or> \<not> listable
      then walk_dirs progress_callback root_path rest st
      else (case scan_files progress_callback (join1 root_path d) (files_of children) st of
              (st1, Returns) \<Rightarrow>
                (case walk_dirs progress_callback (join1 root_path d) children st1 of
                   (st2, Returns) \<Rightarrow> walk_dirs progress_callback root_path rest st2
                 | (st2, raised) \<Rightarrow> (st2, raised))
            | (st1, raised) \<Rightarrow> (st1, raised)))"

text \<open>
  One iteration of the loop over \<open>drives\<close>: the walk of the drive and the two handlers.
  Both handlers go on to the next drive with the state as the exception left it; an
  exception that is not of class \<^verbatim>\<open>Exception\<close> passes them.
\<close>

definition walk :: "observer option \<Rightarrow> path \<Rightarrow> fsnode list \<Rightarrow> scan_state \<Rightarrow> scan_state \<times> signal" where
  "walk progress_callback root_path children st =
     (case scan_files progress_callback root_path (files_of children) st of
        (st1, Returns) \<Rightarrow> walk_dirs progress_callback root_path children st1
      | (st1, raised) \<Rightarrow> (st1, raised))"

definition scan_drive ::
  "observer option \<Rightarrow> path \<times> fsnode \<Rightarrow> scan_state \<Rightarrow> scan_state \<times> signal" where
  "scan_drive progress_callback drive_tree st =
     (case drive_tree of
        (drive_path, FileNode file r) \<Rightarrow> (st, Returns)
      | (drive_path, DirNode d listable children) \<Rightarrow>
          if \<not> listable then (st, Returns)
          else (case walk progress_callback drive_path children st of
                  (st1, RaisesBaseException) \<Rightarrow> (st1, RaisesBaseException)
                | (st1, handled) \<Rightarrow> (st1, Returns)))"

text \<open>
  The loop over \<open>drives\<close>. An exception that passes the handlers leaves
  \<^verbatim>\<open>scan_for_files\<close>, which then returns nothing.
\<close>

fun scan_drives ::
  "observer option \<Rightarrow> (path \<times> fsnode) list \<Rightarrow> scan_state \<Rightarrow> scan_state option" where
  "scan_drives progress_callback [] st = Some st"
| "scan_drives progress_callback (drive_tree # drives) st =
     (case scan_drive progress_callback drive_tree st of
        (st', RaisesBaseException) \<Rightarrow> None
      | (st', handled) \<Rightarrow> scan_drives progress_callback drives st')"

definition scan_for_files ::
  "(path \<times> fsnode) list \<Rightarrow> observer option \<Rightarrow> (string \<times> path list) list option" where
  "scan_for_files drives progress_callback =
     map_option found_files
       (scan_drives progress_callback drives
          \<lparr>found_files = [], scanned_count = 0, skipped_count = 0\<rparr>)"


section \<open>Properties of the linking functions\<close>

subsection \<open>Entries are only ever added\<close>

definition extends :: "fs \<Rightarrow> fs \<Rightarrow> bool" where
  "extends s s' =
     (denied s' = denied s \<and> unreadable s' = unreadable s
      \<and> (\<forall>p. lookup s p \<noteq> None \<longrightarrow> lookup s' p = lookup s p))"

lemma extends_refl: "extends s s"
  by (simp add: extends_def)

lemma extends_trans: "extends a b \<Longrightarrow> extends b c \<Longrightarrow> extends a c"
  by (auto simp: extends_def)

lemma create_entry_Inr:
  "create_entry p n s = Inr s' \<Longrightarrow>
     s' = add_entry p n s \<and> lookup s p = None \<and> os_stat s (parent p) = Inr Dir
     \<and> \<not> denied s p \<and> \<not> unreadable s p"
  by (auto simp: create_entry_def split: if_splits sum.splits)

lemma lookup_add_entry: "lookup (add_entry p n s) q = (if q = p then Some n else lookup s q)"
  by (simp add: lookup_def add_entry_def)

lemma denied_add_entry: "denied (add_entry p n s) = denied s"
  by (simp add: add_entry_def)

lemma unreadable_add_entry: "unreadable (add_entry p n s) = unreadable s"
  by (simp add: add_entry_def)

lemma create_entry_extends: "create_entry p n s = Inr s' \<Longrightarrow> extends s s'"
  by (auto dest!: create_entry_Inr
      simp: extends_def lookup_add_entry denied_add_entry unreadable_add_entry)

lemma create_entry_elsewhere:
  "create_entry p n s = Inr s' \<Longrightarrow> q \<noteq> p \<Longrightarrow> lookup s' q = lookup s q"
  by (auto dest!: create_entry_Inr simp: lookup_add_entry)

lemma exist_ok_state: "exist_ok e p s = (r, s') \<Longrightarrow> s' = s"
  by (auto simp: exist_ok_def split: sum.splits if_splits)

text \<open>
  Whatever holds between the states before and after each directory that is made holds
  between the states before and after \<open>mkdir_parents\<close>; the directories made are the
  path and ancestors of it.
\<close>

lemma mkdir_parents_steps:
  assumes refl: "\<And>a. R a a" and trans: "\<And>a b c. R a b \<Longrightarrow> R b c \<Longrightarrow> R a c"
    and step: "\<And>q a b. length (tail q) \<le> n \<Longrightarrow> os_mkdir q a = Inr b \<Longrightarrow> R a b"
  shows "mkdir_parents p s = (r, s') \<Longrightarrow> length (tail p) \<le> n \<Longrightarrow> R s s'"
proof (induction p s arbitrary: r s' rule: mkdir_parents.induct)
  case (1 p s)
  have len: "length (tail (parent p)) \<le> n" using "1.prems"(2) by (auto simp: parent_def)
  show ?case
  proof (cases "os_mkdir p s")
    case (Inr s1)
    with "1.prems"(1) have "s' = s1" by (subst (asm) mkdir_parents.simps) simp
    with Inr "1.prems"(2) show ?thesis by (auto intro: step)
  next
    case (Inl e)
    show ?thesis
    proof (cases "e = FileNotFoundError \<and> parent p \<noteq> p")
      case False
      with Inl "1.prems"(1) have "s' = s"
        by (subst (asm) mkdir_parents.simps) (auto split: if_splits dest: exist_ok_state)
      then show ?thesis by (simp add: refl)
    next
      case True
      obtain r1 s1 where rec: "mkdir_parents (parent p) s = (r1, s1)" by force
      from "1.IH" [OF Inl _ _ rec len] True have r1: "R s s1" by simp
      show ?thesis
      proof (cases r1)
        case (Some e')
        with Inl True rec "1.prems"(1) have "s' = s1"
          by (subst (asm) mkdir_parents.simps) simp
        with r1 show ?thesis by simp
      next
        case None
        show ?thesis
        proof (cases "os_mkdir p s1")
          case (Inr s2)
          with None Inl True rec "1.prems"(1) have "s' = s2"
            by (subst (asm) mkdir_parents.simps) simp
          with Inr "1.prems"(2) have "R s1 s'" by (auto intro: step)
          with r1 show ?thesis by (rule trans)
        next
          case (Inl e2)
          with None \<open>os_mkdir p s = Inl e\<close> True rec "1.prems"(1) have "s' = s1"
            by (subst (asm) mkdir_parents.simps) (auto split: if_splits dest: exist_ok_state)
          with r1 show ?thesis by simp
        qed
      qed
    qed
  qed
qed

lemma mkdir_parents_extends: "mkdir_parents p s = (r, s') \<Longrightarrow> extends s s'"
  by (erule mkdir_parents_steps [where R = extends and n = "length (tail p)", rotated 3])
     (auto simp: os_mkdir_def intro: extends_refl extends_trans create_entry_extends)

lemma mkdir_parents_deeper:
  assumes "mkdir_parents p s = (r, s')" and "length (tail p) < length (tail q)"
  shows "lookup s' q = lookup s q"
proof -
  have "(\<lambda>a b. lookup b q = lookup a q) s s'"
  proof (rule mkdir_parents_steps [where n = "length (tail p)", OF _ _ _ assms(1)])
    fix q' a b
    assume "length (tail q') \<le> length (tail p)" and mk: "os_mkdir q' a = Inr b"
    with assms(2) have "q \<noteq> q'" by auto
    with mk show "lookup b q = lookup a q"
      by (auto simp: os_mkdir_def dest: create_entry_elsewhere)
  qed simp_all
  then show ?thesis .
qed

lemma create_hybrid_structure_extends:
  assumes "create_hybrid_structure c f out dry s = (r, s')"
  shows "extends s s'"
proof (cases dry)
  case True
  with assms show ?thesis by (simp add: create_hybrid_structure_def Let_def extends_refl)
next
  case False
  obtain r1 s1 where mk: "mkdir_parents (target_dir_of c f out) s = (r1, s1)" by force
  with assms False have "s' = s1"
    by (cases r1) (simp_all add: create_hybrid_structure_def Let_def)
  with mk show ?thesis by (auto dest: mkdir_parents_extends)
qed


lemma link_file_extends:
  assumes "link_file dry out c f s = (oc, s')"
  shows "extends s s'"
proof -
  obtain r s1 where chs: "create_hybrid_structure c f out dry s = (r, s1)" by force
  then have ext1: "extends s s1" by (rule create_hybrid_structure_extends)
  show ?thesis
  proof (cases r)
    case (Inl e)
    with chs assms have "s' = s1" by (simp add: link_file_def)
    with ext1 show ?thesis by simp
  next
    case (Inr t)
    show ?thesis
    proof (cases "dry \<or> (\<exists>e. os_symlink f t s1 = Inl e)")
      case True
      with Inr chs assms have "s' = s1" by (auto simp: link_file_def split: if_splits)
      with ext1 show ?thesis by simp
    next
      case False
      then obtain s2 where sl: "os_symlink f t s1 = Inr s2" by (cases "os_symlink f t s1") auto
      with False Inr chs assms have "s' = s2" by (simp add: link_file_def)
      with sl have "extends s1 s'" by (auto simp: os_symlink_def dest: create_entry_extends)
      with ext1 show ?thesis by (rule extends_trans)
    qed
  qed
qed

subsection \<open>Counters\<close>









subsection \<open>Errors of the status calls\<close>

lemma stat_fuel_error:
  "stat_fuel n s p = Inl e \<Longrightarrow> ignore_error e \<or> (e = PermissionError \<and> (\<exists>q. unreadable s q))"
  by (induction n arbitrary: p)
     (auto simp: ignore_error_def split: if_splits option.splits node.splits)

lemma path_exists_error:
  "path_exists s p = Inl e \<Longrightarrow> e = PermissionError \<and> (\<exists>q. unreadable s q)"
  using stat_fuel_error [of "Suc MAXSYMLINKS" s p]
  by (auto simp: path_exists_def os_stat_def simp del: stat_fuel.simps
      split: sum.splits if_splits)


subsection \<open>Dry runs\<close>







subsection \<open>The state does not depend on the counters\<close>

lemma link_files_snd:
  "snd (link_files dry out c files (st, s)) = snd (link_files dry out c files (st', s))"
proof (induction files arbitrary: st st' s)
  case Nil
  show ?case by simp
next
  case (Cons f files)
  obtain oc s1 where lf: "link_file dry out c f s = (oc, s1)" by force
  show ?case using Cons.IH [of "count_outcome oc st" s1 "count_outcome oc st'"] by (simp add: lf)
qed

lemma link_files_extends: "extends s (snd (link_files dry out c files (st, s)))"
proof (induction files arbitrary: st s)
  case Nil
  show ?case by (simp add: extends_refl)
next
  case (Cons f files)
  obtain oc s1 where lf: "link_file dry out c f s = (oc, s1)" by force
  from lf have "extends s s1" by (rule link_file_extends)
  with Cons.IH [of s1 "count_outcome oc st"] show ?case
    by (simp add: lf) (erule extends_trans)
qed


subsection \<open>Created links\<close>

lemma created_targets_append:
  "created_targets (xs @ ys) = created_targets xs @ created_targets ys"
  by (induction xs rule: created_targets.induct) simp_all

lemma link_file_Created_live:
  assumes "link_file False out c f s = (Created t, s')"
  shows "lookup s t = None \<and> lookup s' t = Some (Link f)"
proof -
  obtain r s1 where chs: "create_hybrid_structure c f out False s = (r, s1)" by force
  then have ext: "extends s s1" by (rule create_hybrid_structure_extends)
  from assms chs obtain t' where r: "r = Inr t'"
    by (cases r) (auto simp: link_file_def handler_def split: if_splits)
  from assms chs r have sl: "os_symlink f t s1 = Inr s'" and "t' = t"
    by (auto simp: link_file_def handler_def split: sum.splits if_splits)
  then have "s' = add_entry t (Link f) s1" "lookup s1 t = None"
    by (auto simp: os_symlink_def dest: create_entry_Inr)
  with ext show ?thesis by (auto simp: extends_def lookup_add_entry)
qed

definition fresh_links :: "fs \<Rightarrow> fs \<Rightarrow> path list \<Rightarrow> bool" where
  "fresh_links s s' ts =
     (distinct ts \<and> list_all (\<lambda>t. lookup s t = None \<and> lookup s' t \<noteq> None) ts)"

lemma file_outcomes_fresh:
  "fresh_links s (snd (link_files False out c files (st, s)))
     (created_targets (file_outcomes False out c files s))"
proof (induction files arbitrary: s st)
  case Nil
  show ?case by (simp add: fresh_links_def)
next
  case (Cons f files)
  obtain oc s1 where lf: "link_file False out c f s = (oc, s1)" by force
  let ?s' = "snd (link_files False out c files (count_outcome oc st, s1))"
  let ?ts = "created_targets (file_outcomes False out c files s1)"
  from lf have ext: "extends s s1" by (rule link_file_extends)
  have ext': "extends s1 ?s'" by (rule link_files_extends)
  from Cons.IH [of s1 "count_outcome oc st"] have ih: "fresh_links s1 ?s' ?ts" .
  have rest: "fresh_links s ?s' ?ts"
    using ih ext by (auto simp: fresh_links_def list_all_iff extends_def)
  show ?case
  proof (cases oc)
    case (Created t)
    with lf have "lookup s t = None" "lookup s1 t \<noteq> None"
      by (auto dest: link_file_Created_live)
    moreover with ext' have "lookup ?s' t \<noteq> None" by (auto simp: extends_def)
    moreover from \<open>lookup s1 t \<noteq> None\<close> ih have "t \<notin> set ?ts"
      by (auto simp: fresh_links_def list_all_iff)
    ultimately show ?thesis using rest Created lf
      by (simp add: fresh_links_def)
  next
    case Skipped
    with rest lf show ?thesis by simp
  next
    case (Failed e)
    with rest lf show ?thesis by simp
  qed
qed

lemma link_categories_snd:
  "snd (link_categories dry out fbc (st, s)) = snd (link_categories dry out fbc (st', s))"
proof (induction fbc arbitrary: st st' s)
  case Nil
  show ?case by simp
next
  case (Cons a fbc)
  obtain c files where a: "a = (c, files)" by (cases a)
  obtain st1 s1 where l1: "link_files dry out c files (st, s) = (st1, s1)" by force
  obtain st2 s2 where l2: "link_files dry out c files (st', s) = (st2, s2)" by force
  from link_files_snd [of dry out c files st s st'] l1 l2 have "s2 = s1" by simp
  with Cons.IH [of st1 s1 st2] show ?case by (simp add: a l1 l2)
qed

lemma link_categories_extends: "extends s (snd (link_categories dry out fbc (st, s)))"
proof (induction fbc arbitrary: st s)
  case Nil
  show ?case by (simp add: extends_refl)
next
  case (Cons a fbc)
  obtain c files where a: "a = (c, files)" by (cases a)
  obtain st1 s1 where l1: "link_files dry out c files (st, s) = (st1, s1)" by force
  from link_files_extends [of s dry out c files st] l1 have "extends s s1" by simp
  with Cons.IH [of s1 st1] show ?case by (simp add: a l1) (erule extends_trans)
qed

lemma run_outcomes_fresh:
  "fresh_links s (snd (link_categories False out fbc (st, s)))
     (created_targets (run_outcomes False out fbc s))"
proof (induction fbc arbitrary: s st)
  case Nil
  show ?case by (simp add: fresh_links_def)
next
  case (Cons a fbc)
  obtain c files where a: "a = (c, files)" by (cases a)
  let ?z = "\<lparr>created = 0, failed = 0, skipped = 0\<rparr>"
  obtain st1 s1 where l1: "link_files False out c files (st, s) = (st1, s1)" by force
  from link_files_snd [of False out c files st s ?z] l1
  have s1: "snd (link_files False out c files (?z, s)) = s1" by simp
  let ?s' = "snd (link_categories False out fbc (st1, s1))"
  let ?xs = "created_targets (file_outcomes False out c files s)"
  let ?ys = "created_targets (run_outcomes False out fbc s1)"
  from file_outcomes_fresh [of s out c files st] l1 have fx: "fresh_links s s1 ?xs" by simp
  from Cons.IH [of s1 st1] have fy: "fresh_links s1 ?s' ?ys" .
  from link_files_extends [of s False out c files st] l1 have e1: "extends s s1" by simp
  have e2: "extends s1 ?s'" by (rule link_categories_extends)
  have "set ?xs \<inter> set ?ys = {}"
    using fx fy by (auto simp: fresh_links_def list_all_iff)
  moreover have "list_all (\<lambda>t. lookup s t = None \<and> lookup ?s' t \<noteq> None) ?xs"
    using fx e2 by (auto simp: fresh_links_def list_all_iff extends_def)
  moreover have "list_all (\<lambda>t. lookup s t = None \<and> lookup ?s' t \<noteq> None) ?ys"
    using fy e1 by (auto simp: fresh_links_def list_all_iff extends_def)
  ultimately show ?case
    using fx fy by (simp add: a l1 s1 created_targets_append fresh_links_def)
qed

section \<open>Example trees\<close>

text \<open>
  Concrete inputs for the closed theorems below: a POSIX tree with an output directory
  and two photo folders of the same name that hold a file of the same name each.
\<close>

definition posix :: "string list \<Rightarrow> path" where
  "posix xs = \<lparr>drive = [], root = ''/'', tail = xs\<rparr>"

text \<open>
  A volume without refusals, one that refuses every new entry, and one on which no path
  can be resolved.
\<close>

definition volume :: "(path \<times> node) list \<Rightarrow> fs" where
  "volume es = \<lparr>entries = es, denied = (\<lambda>p. False), unreadable = (\<lambda>p. False)\<rparr>"

definition readonly_volume :: "(path \<times> node) list \<Rightarrow> fs" where
  "readonly_volume es = \<lparr>entries = es, denied = (\<lambda>p. True), unreadable = (\<lambda>p. False)\<rparr>"


definition photo_tree :: "(path \<times> node) list" where
  "photo_tree =
     [(posix [], Dir), (posix [''out''], Dir),
      (posix [''a''], Dir), (posix [''a'', ''Photos''], Dir),
      (posix [''a'', ''Photos'', ''img.jpg''], File),
      (posix [''b''], Dir), (posix [''b'', ''Photos''], Dir),
      (posix [''b'', ''Photos'', ''img.jpg''], File)]"

definition one_photo :: "(string \<times> path list) list" where
  "one_photo = [(''pictures'', [posix [''a'', ''Photos'', ''img.jpg'']])]"

definition photo_folder :: "fsnode list" where
  "photo_folder = [DirNode ''Photos'' True [FileNode ''img.jpg'' NoFileAttributes]]"

definition two_photos :: "(string \<times> path list) list" where
  "two_photos =
     [(''pictures'', [posix [''a'', ''Photos'', ''img.jpg''], posix [''b'', ''Photos'', ''img.jpg'']])]"

text \<open>
  The same tree with the folders of the output made, and with the canonical target of
  the first photo taken: by a link whose referent is missing, so that \<^verbatim>\<open>exists()\<close>
  does not see it, and by the link that a first live run over \<^verbatim>\<open>/a/Photos/img.jpg\<close>
  leaves.
\<close>

definition prepared_tree :: "(path \<times> node) list" where
  "prepared_tree =
     [(posix [''out'', ''pictures'', ''Photos''], Dir), (posix [''out'', ''pictures''], Dir)]
     @ photo_tree"


definition relinked_tree :: "(path \<times> node) list" where
  "relinked_tree =
     (posix [''out'', ''pictures'', ''Photos'', ''img.jpg''],
        Link (posix [''a'', ''Photos'', ''img.jpg'']))
     # prepared_tree"

section \<open>Statistics\<close>



section \<open>Preview and live runs\<close>




section \<open>Targets within one run\<close>

text \<open>
  Claim C2, as amended. The planner asks the filesystem only, there is no set of claimed
  targets. In a live run the links that were created have pairwise different target
  paths: each of them was absent before the run and is present after it. In a preview
  nothing is created between two plans, and two files with the same name, category and
  parent folder name are given the same target.
\<close>

theorem created_links_distinct:
  "distinct (created_targets (run_outcomes False out fbc s))
   \<and> list_all (\<lambda>t. lookup s t = None
         \<and> lookup (snd (create_symbolic_links fbc out False s)) t \<noteq> None)
       (created_targets (run_outcomes False out fbc s))"
  using run_outcomes_fresh [of s out fbc "\<lparr>created = 0, failed = 0, skipped = 0\<rparr>"]
  by (simp add: fresh_links_def create_symbolic_links_def)

theorem created_links_distinct_witness:
  "created_targets (run_outcomes False (posix [''out'']) two_photos (volume photo_tree)) =
     [posix [''out'', ''pictures'', ''Photos'', ''img.jpg''],
      posix [''out'', ''pictures'', ''Photos'', ''img_1.jpg'']]
   \<and> distinct (created_targets (run_outcomes False (posix [''out'']) two_photos (volume photo_tree)))"
proof -
  have "created_targets (run_outcomes False (posix [''out'']) two_photos (volume photo_tree)) =
     [posix [''out'', ''pictures'', ''Photos'', ''img.jpg''],
      posix [''out'', ''pictures'', ''Photos'', ''img_1.jpg'']]"
    by code_simp
  with created_links_distinct [of "posix [''out'']" two_photos "volume photo_tree"]
  show ?thesis by simp
qed

text \<open>
  The preview of two photos \<^verbatim>\<open>/a/Photos/img.jpg\<close> and \<^verbatim>\<open>/b/Photos/img.jpg\<close> plans the
  same target twice. In a live run in which the operating system refuses the first link,
  the second file is planned the target of the first as well.
\<close>

theorem plans_collide:
  "created_targets (run_outcomes True (posix [''out'']) two_photos (volume photo_tree)) =
     [posix [''out'', ''pictures'', ''Photos'', ''img.jpg''],
      posix [''out'', ''pictures'', ''Photos'', ''img.jpg'']]
   \<and> fst (create_hybrid_structure ''pictures'' (posix [''a'', ''Photos'', ''img.jpg''])
         (posix [''out'']) False (readonly_volume prepared_tree))
      = Inr (posix [''out'', ''pictures'', ''Photos'', ''img.jpg''])
   \<and> fst (link_file False (posix [''out'']) ''pictures'' (posix [''a'', ''Photos'', ''img.jpg''])
         (readonly_volume prepared_tree)) = Failed PermissionError
   \<and> fst (create_hybrid_structure ''pictures'' (posix [''b'', ''Photos'', ''img.jpg''])
         (posix [''out'']) False
         (snd (link_file False (posix [''out'']) ''pictures'' (posix [''a'', ''Photos'', ''img.jpg''])
            (readonly_volume prepared_tree))))
      = Inr (posix [''out'', ''pictures'', ''Photos'', ''img.jpg''])"
  by code_simp

section \<open>Classifier\<close>

subsection \<open>Strings and suffixes\<close>

lemma lower_ascii_dot: "lower_ascii c = CHR ''.'' \<longleftrightarrow> c = CHR ''.''"
  unfolding lower_ascii_def by (simp split: if_splits)

lemma lower_Cons_plain: "a \<noteq> CHR 0xE2 \<Longrightarrow> lower (a # rest) = lower_ascii a # lower rest"
  by (cases "a # rest" rule: lower.cases) (simp_all add: kelvin_sign_def)

lemma lower_dot_Cons: "lower (CHR ''.'' # e) = CHR ''.'' # lower e"
  by (simp add: lower_Cons_plain lower_ascii_def)

lemma lower_append_dot: "lower (a @ CHR ''.'' # e) = lower a @ CHR ''.'' # lower e"
proof (induction a rule: lower.induct, goal_cases)
  case (1 a b c rest)
  then show ?case by (simp add: kelvin_sign_def)
next
  case (2 a)
  show ?case
  proof (cases e)
    case Nil
    then show ?thesis by (simp add: kelvin_sign_def lower_ascii_def)
  next
    case (Cons x xs)
    then show ?thesis by (simp add: kelvin_sign_def lower_dot_Cons)
  qed
next
  case (3 a b)
  then show ?case by (simp add: kelvin_sign_def lower_dot_Cons)
next
  case 4
  show ?case by (simp add: lower_dot_Cons)
qed

lemma lower_ascii_dot': "CHR ''.'' = lower_ascii c \<longleftrightarrow> c = CHR ''.''"
  using lower_ascii_dot [of c] by auto

lemma lower_dot_mem: "CHR ''.'' \<in> set (lower s) \<longleftrightarrow> CHR ''.'' \<in> set s"
proof (induction s rule: lower.induct)
  case (1 a b c rest)
  show ?case
  proof (cases "[a, b, c] = kelvin_sign")
    case True
    with 1 show ?thesis by (auto simp: kelvin_sign_def)
  next
    case False
    with 1 have "CHR ''.'' \<in> set (lower (b # c # rest)) \<longleftrightarrow> CHR ''.'' \<in> set (b # c # rest)"
      by simp
    with False show ?thesis by (auto simp: lower_ascii_dot')
  qed
qed (auto simp: lower_ascii_dot')

lemma lower_Nil_iff: "lower s = [] \<longleftrightarrow> s = []"
  by (cases s rule: lower.cases) simp_all

lemma rfind_notin: "c \<notin> set s \<Longrightarrow> rfind c s = - 1"
  by (induction s) (auto simp: Let_def)

lemma rfind_last: "c \<notin> set e \<Longrightarrow> rfind c (a @ c # e) = int (length a)"
  by (induction a) (auto simp: Let_def rfind_notin)

lemma last_dot_split:
  "CHR ''.'' \<in> set s \<Longrightarrow> \<exists>a e. s = a @ CHR ''.'' # e \<and> CHR ''.'' \<notin> set e"
  by (auto dest: split_list_last)

text \<open>The suffix that \<^verbatim>\<open>pathlib\<close> takes from a name.\<close>

definition suffix_of_name :: "string \<Rightarrow> string" where
  "suffix_of_name nm =
     (let i = rfind CHR ''.'' nm
      in if 0 < i \<and> i < int (length nm) - 1 then drop (nat i) nm else [])"

lemma path_suffix_name: "path_suffix p = suffix_of_name (name p)"
  by (simp add: path_suffix_def suffix_of_name_def Let_def)

lemma suffix_of_name_no_dot: "CHR ''.'' \<notin> set nm \<Longrightarrow> suffix_of_name nm = []"
  by (simp add: suffix_of_name_def Let_def rfind_notin)

lemma suffix_of_name_last_dot:
  "CHR ''.'' \<notin> set e \<Longrightarrow>
     suffix_of_name (a @ CHR ''.'' # e) = (if a = [] \<or> e = [] then [] else CHR ''.'' # e)"
  using rfind_last [of "CHR ''.''" e a] by (auto simp: suffix_of_name_def Let_def)

lemma lower_suffix_of_name: "lower (suffix_of_name nm) = suffix_of_name (lower nm)"
proof (cases "CHR ''.'' \<in> set nm")
  case False
  then have "CHR ''.'' \<notin> set (lower nm)" by (simp add: lower_dot_mem)
  with False show ?thesis by (simp add: suffix_of_name_no_dot)
next
  case True
  then obtain a e where nm: "nm = a @ CHR ''.'' # e" and e: "CHR ''.'' \<notin> set e"
    by (auto dest: last_dot_split)
  from e have e': "CHR ''.'' \<notin> set (lower e)" by (simp add: lower_dot_mem)
  show ?thesis
    unfolding nm lower_append_dot suffix_of_name_last_dot [OF e] suffix_of_name_last_dot [OF e']
    by (simp add: lower_Nil_iff lower_dot_Cons)
qed

lemma path_suffix_no_dot: "CHR ''.'' \<notin> set (name p) \<Longrightarrow> path_suffix p = []"
  by (simp add: path_suffix_name suffix_of_name_no_dot)

lemma path_suffix_dotfile:
  "name p = CHR ''.'' # e \<Longrightarrow> CHR ''.'' \<notin> set e \<Longrightarrow> path_suffix p = []"
  using suffix_of_name_last_dot [of e "[]"] by (simp add: path_suffix_name)

lemma path_suffix_last_dot:
  "name p = a @ CHR ''.'' # e \<Longrightarrow> a \<noteq> [] \<Longrightarrow> CHR ''.'' \<notin> set e \<Longrightarrow>
     path_suffix p = (if e = [] then [] else CHR ''.'' # e)"
  using suffix_of_name_last_dot [of e a] by (simp add: path_suffix_name)

lemma name_stem_suffix: "stem p @ path_suffix p = name p"
  by (simp add: stem_def path_suffix_def Let_def)

subsection \<open>The table\<close>

lemma first_category_Some:
  "first_category x tbl = Some c \<Longrightarrow> \<exists>exts. (c, exts) \<in> set tbl \<and> x \<in> set exts"
  by (induction x tbl rule: first_category.induct) (auto split: if_splits)

lemma first_category_complete:
  "distinct (concat (map snd tbl)) \<Longrightarrow> (c, exts) \<in> set tbl \<Longrightarrow> x \<in> set exts \<Longrightarrow>
     first_category x tbl = Some c"
proof (induction x tbl rule: first_category.induct)
  case (1 extension)
  then show ?case by simp
next
  case (2 extension category extensions rest)
  show ?case
  proof (cases "extension \<in> set extensions")
    case True
    have "(c, exts) \<notin> set rest"
    proof
      assume "(c, exts) \<in> set rest"
      with "2.prems"(3) have "extension \<in> set (concat (map snd rest))" by force
      with True "2.prems"(1) show False by auto
    qed
    with "2.prems"(2) True show ?thesis by simp
  next
    case False
    with "2.prems" have "(c, exts) \<in> set rest" by auto
    with False "2.IH" "2.prems" show ?thesis by simp
  qed
qed

lemma FILE_CATEGORIES_disjoint: "distinct (concat (map snd FILE_CATEGORIES))"
  unfolding FILE_CATEGORIES_def by simp

lemma first_category_iff:
  "first_category x FILE_CATEGORIES = Some c \<longleftrightarrow>
     (\<exists>exts. (c, exts) \<in> set FILE_CATEGORIES \<and> x \<in> set exts)"
  using first_category_Some first_category_complete [OF FILE_CATEGORIES_disjoint] by blast

lemma first_category_trivial:
  "first_category [] FILE_CATEGORIES = None" "first_category ''.'' FILE_CATEGORIES = None"
  by (simp_all add: FILE_CATEGORIES_def)

text \<open>\<^verbatim>\<open>Path(nm)\<close> for a bare file name.\<close>

definition rel_file :: "string \<Rightarrow> path" where
  "rel_file nm = \<lparr>drive = [], root = [], tail = [nm]\<rparr>"

text \<open>
  Claim C6. The category of a file depends on its name only, through the final
  extension: a name without a dot, or whose only dot is the first character, has no
  category; a name \<open>a.e\<close> with \<open>a\<close> not empty and no dot in \<open>e\<close> has category \<open>c\<close>
  exactly when the lowercased \<open>.e\<close> is in the extension set of \<open>c\<close> in the static table;
  the result is none exactly when the lowercased suffix is in no set of the table; two
  names with the same lowercase form are classified alike. \<^verbatim>\<open>PHOTO.JPG\<close> and
  \<^verbatim>\<open>photo.jpg\<close> are pictures, \<^verbatim>\<open>unknown.xyz\<close> and \<^verbatim>\<open>README\<close> have no category,
  and \<^verbatim>\<open>clip.MKV\<close> written with the Kelvin sign for its \<^verbatim>\<open>K\<close> is a video, as
  \<^verbatim>\<open>clip.mkv\<close> is.
\<close>

theorem classification_contract:
  "(CHR ''.'' \<notin> set (name p) \<longrightarrow> get_file_category p = None)
   \<and> (\<forall>e. name p = CHR ''.'' # e \<and> CHR ''.'' \<notin> set e \<longrightarrow> get_file_category p = None)
   \<and> (\<forall>a e c. name p = a @ CHR ''.'' # e \<and> a \<noteq> [] \<and> CHR ''.'' \<notin> set e \<longrightarrow>
         (get_file_category p = Some c \<longleftrightarrow>
            (\<exists>exts. (c, exts) \<in> set FILE_CATEGORIES \<and> lower (CHR ''.'' # e) \<in> set exts)))
   \<and> (get_file_category p = None \<longleftrightarrow>
         \<not> (\<exists>c exts. (c, exts) \<in> set FILE_CATEGORIES \<and> lower (path_suffix p) \<in> set exts))
   \<and> (lower (name q) = lower (name p) \<longrightarrow> get_file_category q = get_file_category p)
   \<and> get_file_category (rel_file ''PHOTO.JPG'') = Some ''pictures''
   \<and> get_file_category (rel_file ''photo.jpg'') = Some ''pictures''
   \<and> get_file_category (rel_file ''unknown.xyz'') = None
   \<and> get_file_category (rel_file ''README'') = None
   \<and> get_file_category (rel_file (''clip.M'' @ kelvin_sign @ ''V'')) = Some ''video''
   \<and> get_file_category (rel_file ''clip.mkv'') = Some ''video''"
proof -
  have nodot: "CHR ''.'' \<notin> set (name p) \<longrightarrow> get_file_category p = None"
    by (simp add: get_file_category_def path_suffix_no_dot first_category_trivial)
  have dotfile: "\<forall>e. name p = CHR ''.'' # e \<and> CHR ''.'' \<notin> set e \<longrightarrow> get_file_category p = None"
    by (auto simp: get_file_category_def path_suffix_dotfile first_category_trivial)
  have lastdot: "\<forall>a e c. name p = a @ CHR ''.'' # e \<and> a \<noteq> [] \<and> CHR ''.'' \<notin> set e \<longrightarrow>
         (get_file_category p = Some c \<longleftrightarrow>
            (\<exists>exts. (c, exts) \<in> set FILE_CATEGORIES \<and> lower (CHR ''.'' # e) \<in> set exts))"
  proof (intro allI impI, elim conjE)
    fix a e c
    assume nm: "name p = a @ CHR ''.'' # e" "a \<noteq> []" "CHR ''.'' \<notin> set e"
    have "get_file_category p = first_category (lower (CHR ''.'' # e)) FILE_CATEGORIES"
    proof (cases "e = []")
      case True
      with nm have "path_suffix p = []" by (simp add: path_suffix_last_dot)
      with True show ?thesis
        by (simp add: get_file_category_def lower_ascii_def first_category_trivial)
    next
      case False
      with nm have "path_suffix p = CHR ''.'' # e" by (simp add: path_suffix_last_dot)
      then show ?thesis by (simp add: get_file_category_def)
    qed
    then show "get_file_category p = Some c \<longleftrightarrow>
        (\<exists>exts. (c, exts) \<in> set FILE_CATEGORIES \<and> lower (CHR ''.'' # e) \<in> set exts)"
      by (simp add: first_category_iff)
  qed
  have none: "get_file_category p = None \<longleftrightarrow>
         \<not> (\<exists>c exts. (c, exts) \<in> set FILE_CATEGORIES \<and> lower (path_suffix p) \<in> set exts)"
  proof -
    have "get_file_category p = None \<longleftrightarrow> \<not> (\<exists>c. get_file_category p = Some c)" by auto
    then show ?thesis unfolding get_file_category_def first_category_iff by blast
  qed
  have insens: "lower (name q) = lower (name p) \<longrightarrow> get_file_category q = get_file_category p"
    by (simp add: get_file_category_def path_suffix_name lower_suffix_of_name)
  have ex: "get_file_category (rel_file ''PHOTO.JPG'') = Some ''pictures''"
       "get_file_category (rel_file ''photo.jpg'') = Some ''pictures''"
       "get_file_category (rel_file ''unknown.xyz'') = None"
       "get_file_category (rel_file ''README'') = None"
       "get_file_category (rel_file (''clip.M'' @ kelvin_sign @ ''V'')) = Some ''video''"
       "get_file_category (rel_file ''clip.mkv'') = Some ''video''"
    by code_simp+
  from nodot dotfile lastdot none insens ex show ?thesis by blast
qed

theorem classification_contract_witness:
  "get_file_category (rel_file ''Song.Final.MP3'') = Some ''audio''
   \<and> get_file_category (rel_file ''song.final.mp3'') = Some ''audio''
   \<and> get_file_category (rel_file ''.bashrc'') = None
   \<and> get_file_category (rel_file ''Makefile'') = None"
proof -
  let ?p = "rel_file ''Song.Final.MP3''" and ?q = "rel_file ''song.final.mp3''"
  have nm: "name ?p = ''Song.Final'' @ CHR ''.'' # ''MP3'' \<and> ''Song.Final'' \<noteq> []
      \<and> CHR ''.'' \<notin> set ''MP3''"
    by (simp add: rel_file_def name_def)
  have low: "lower (CHR ''.'' # ''MP3'') = ''.mp3''" by code_simp
  have tbl: "\<exists>exts. (''audio'', exts) \<in> set FILE_CATEGORIES \<and> lower (CHR ''.'' # ''MP3'') \<in> set exts"
    unfolding low by (simp add: FILE_CATEGORIES_def)
  from classification_contract [of ?p ?p] nm tbl
  have a: "get_file_category ?p = Some ''audio''" by blast
  have "lower (name ?q) = lower (name ?p)" by code_simp
  with classification_contract [of ?p ?q] a have b: "get_file_category ?q = Some ''audio''"
    by simp
  have "name (rel_file ''.bashrc'') = CHR ''.'' # ''bashrc'' \<and> CHR ''.'' \<notin> set ''bashrc''"
    by (simp add: rel_file_def name_def)
  with classification_contract [of "rel_file ''.bashrc''" ?p]
  have c: "get_file_category (rel_file ''.bashrc'') = None" by blast
  have "CHR ''.'' \<notin> set (name (rel_file ''Makefile''))" by (simp add: rel_file_def name_def)
  with classification_contract [of "rel_file ''Makefile''" ?p]
  have d: "get_file_category (rel_file ''Makefile'') = None" by blast
  from a b c d show ?thesis by simp
qed

section \<open>Exclusion by an ancestor\<close>

text \<open>A Windows path with its drive, for instance \<^verbatim>\<open>C:\Windows\System32\<close>.\<close>

definition windows :: "string \<Rightarrow> string list \<Rightarrow> path" where
  "windows d xs = \<lparr>drive = d, root = [CHR 0x5C], tail = xs\<rparr>"

lemma parts_parent_subset: "set (parts (parent p)) \<subseteq> set (parts p)"
  by (auto simp: parts_def parent_def dest: in_set_butlastD)

text \<open>
  Claim C7. A directory whose path has, among the components of its parent path, one
  that is an entry of the exclusion set when lowercased is excluded, whatever its own
  name is.
\<close>

theorem excluded_ancestor:
  assumes "x \<in> set (parts (parent p))" and "lower x \<in> set EXCLUDED_DIRS"
  shows "should_exclude_directory p"
proof -
  from assms(1) parts_parent_subset have "lower x \<in> set (map lower (parts p))" by auto
  with assms(2) have "list_ex (\<lambda>excluded. excluded \<in> set (map lower (parts p))) EXCLUDED_DIRS"
    unfolding list_ex_iff by blast
  then show ?thesis by (simp add: should_exclude_directory_def Let_def)
qed

theorem excluded_ancestor_witness:
  "should_exclude_directory (windows ''C:'' [''Windows'', ''System32''])
   \<and> \<not> startswith ''System32'' CHR ''.'' \<and> lower ''System32'' \<notin> set EXCLUDED_DIRS"
proof -
  have a: "''Windows'' \<in> set (parts (parent (windows ''C:'' [''Windows'', ''System32''])))"
    by (simp add: parts_def parent_def windows_def)
  have b: "lower ''Windows'' \<in> set EXCLUDED_DIRS" by code_simp
  have c: "\<not> startswith ''System32'' CHR ''.'' \<and> lower ''System32'' \<notin> set EXCLUDED_DIRS"
    by code_simp
  from excluded_ancestor [OF a b] c show ?thesis by simp
qed

section \<open>Namespace of a source file\<close>

lemma parent_name_cases:
  "parent_name f =
     (if name (parent f) \<in> {[], [CHR 0x5C], ''/''}
      then filter (\<lambda>x. x \<noteq> CHR '':'' \<and> x \<noteq> CHR 0x5C) (drive f)
      else name (parent f))"
  by (auto simp: parent_name_def Let_def remove_char_def intro: filter_cong)

text \<open>
  Claim C3. The claim asks for the token \<^verbatim>\<open>root\<close> when neither the parent name nor the
  drive gives a name, so that the namespace is never empty. The code assigns \<^verbatim>\<open>'root'\<close>
  in an exception handler only, and nothing raises: for \<^verbatim>\<open>/notes.txt\<close> and for the
  relative \<^verbatim>\<open>notes.txt\<close> the parent name and the drive are both empty, the namespace is
  the empty string and the link is planned directly under the category folder. The
  fallbacks that do work are shown beside it: the drive letter for \<^verbatim>\<open>C:\notes.txt\<close>, the
  parent name for \<^verbatim>\<open>/data/notes.txt\<close>.
\<close>

theorem namespace_empty_at_root:
  "parent_name (posix [''notes.txt'']) = []
   \<and> target_dir_of ''text'' (posix [''notes.txt'']) (posix [''out'']) = posix [''out'', ''text'']
   \<and> fst (create_hybrid_structure ''text'' (posix [''notes.txt'']) (posix [''out'']) True
         (volume photo_tree)) = Inr (posix [''out'', ''text'', ''notes.txt''])
   \<and> parent_name (rel_file ''notes.txt'') = []
   \<and> parent_name (windows ''C:'' [''notes.txt'']) = ''C''
   \<and> parent_name (posix [''data'', ''notes.txt'']) = ''data''"
  by code_simp

section \<open>Outcomes of the materializer\<close>

subsection \<open>The loop that looks for a free name\<close>

lemma unique_target_stop:
  "path_exists s t = Inr False \<Longrightarrow> unique_target s d f t c = Inr t"
  by (subst unique_target.simps) simp

lemma unique_target_step:
  "path_exists s t = Inr True \<Longrightarrow>
     unique_target s d f t c = unique_target s d f (join1 d (numbered_name f c)) (c + 1)"
  by (subst unique_target.simps) simp

lemma unique_target_raise:
  "path_exists s t = Inl e \<Longrightarrow> unique_target s d f t c = Inl e"
  by (subst unique_target.simps) simp

lemma path_exists_cases:
  obtains (seen) "path_exists s t = Inr True" | (free) "path_exists s t = Inr False"
  | (raised) e where "path_exists s t = Inl e"
  by (cases "path_exists s t") auto

lemma unique_target_free: "unique_target s d f t c = Inr t' \<Longrightarrow> path_exists s t' = Inr False"
proof (induction s d f t c rule: unique_target.induct)
  case (1 s d f t c)
  show ?case
  proof (cases s t rule: path_exists_cases)
    case seen
    with "1.prems" "1.IH" [OF seen] show ?thesis by (simp add: unique_target_step)
  next
    case free
    with "1.prems" show ?thesis by (simp add: unique_target_stop)
  next
    case (raised e)
    with "1.prems" show ?thesis by (simp add: unique_target_raise)
  qed
qed

text \<open>
  When the first candidate is seen, the loop stops at the first numbered name that is
  not seen: it returns that name, or the error that \<^verbatim>\<open>exists()\<close> raises for it.
\<close>

lemma unique_target_numbered:
  "path_exists s t = Inr True \<Longrightarrow>
     \<exists>k\<ge>c. (\<forall>j. c \<le> j \<and> j < k \<longrightarrow> path_exists s (join1 d (numbered_name f j)) = Inr True)
       \<and> path_exists s (join1 d (numbered_name f k)) \<noteq> Inr True
       \<and> unique_target s d f t c =
           (case path_exists s (join1 d (numbered_name f k)) of
              Inl e \<Rightarrow> Inl e
            | Inr b \<Rightarrow> Inr (join1 d (numbered_name f k)))"
proof (induction s d f t c rule: unique_target.induct)
  case (1 s d f t c)
  let ?t' = "join1 d (numbered_name f c)"
  have step: "unique_target s d f t c = unique_target s d f ?t' (c + 1)"
    using "1.prems" by (rule unique_target_step)
  show ?case
  proof (cases s ?t' rule: path_exists_cases)
    case free
    then show ?thesis by (intro exI [of _ c]) (auto simp: step unique_target_stop)
  next
    case (raised e)
    then show ?thesis by (intro exI [of _ c]) (auto simp: step unique_target_raise)
  next
    case seen
    from "1.IH" [OF "1.prems" _ seen] obtain k where k: "c + 1 \<le> k"
      "\<forall>j. c + 1 \<le> j \<and> j < k \<longrightarrow> path_exists s (join1 d (numbered_name f j)) = Inr True"
      "path_exists s (join1 d (numbered_name f k)) \<noteq> Inr True"
      "unique_target s d f ?t' (c + 1) =
         (case path_exists s (join1 d (numbered_name f k)) of
            Inl e \<Rightarrow> Inl e
          | Inr b \<Rightarrow> Inr (join1 d (numbered_name f k)))"
      by auto
    have "\<forall>j. c \<le> j \<and> j < k \<longrightarrow> path_exists s (join1 d (numbered_name f j)) = Inr True"
    proof (intro allI impI)
      fix j assume j: "c \<le> j \<and> j < k"
      show "path_exists s (join1 d (numbered_name f j)) = Inr True"
      proof (cases "j = c")
        case True
        with seen show ?thesis by simp
      next
        case False
        with j k(2) show ?thesis by simp
      qed
    qed
    with k show ?thesis by (intro exI [of _ k]) (simp add: step)
  qed
qed

subsection \<open>Paths made by joining one component\<close>

lemma parent_join1: "x \<noteq> [] \<Longrightarrow> parent (join1 d x) = d"
  by (simp add: parent_def join1_def)

lemma name_join1: "x \<noteq> [] \<Longrightarrow> name (join1 d x) = x"
  by (simp add: name_def join1_def)

lemma length_tail_join1: "x \<noteq> [] \<Longrightarrow> length (tail (join1 d x)) = Suc (length (tail d))"
  by (simp add: join1_def)

lemma numbered_name_neq_name: "numbered_name f k \<noteq> name f"
proof
  assume "numbered_name f k = name f"
  then have "length (numbered_name f k) = length (stem f @ path_suffix f)"
    by (simp add: name_stem_suffix)
  then show False by (simp add: numbered_name_def)
qed

subsection \<open>Directories that exist already\<close>

lemma os_stat_Inr: "os_stat s p = Inr nd \<Longrightarrow> lookup s p \<noteq> None \<and> \<not> unreadable s p"
  by (auto simp: os_stat_def split: if_splits option.splits)

lemma path_exists_readable: "path_exists s p = Inr b \<Longrightarrow> \<not> unreadable s p"
  by (auto simp: path_exists_def os_stat_def ignore_error_def split: if_splits sum.splits)

lemma is_dir_stat: "is_dir s p = Inr True \<longleftrightarrow> os_stat s p = Inr Dir"
  by (auto simp: is_dir_def split: sum.splits if_splits)

lemma is_dir_exists: "is_dir s p = Inr True \<Longrightarrow> path_exists s p = Inr True"
  by (simp add: is_dir_stat path_exists_def)

lemma mkdir_parents_existing:
  assumes "is_dir s p = Inr True"
  shows "mkdir_parents p s = (None, s)"
proof -
  from assms have "lookup s p \<noteq> None" "\<not> unreadable s p"
    by (auto simp: is_dir_stat dest: os_stat_Inr)
  then have "os_mkdir p s = Inl FileExistsError" by (simp add: os_mkdir_def create_entry_def)
  with assms show ?thesis by (subst mkdir_parents.simps) (simp add: exist_ok_def)
qed

lemma create_hybrid_structure_existing:
  "is_dir s (target_dir_of c f out) = Inr True \<Longrightarrow>
     create_hybrid_structure c f out False s =
       (unique_target s (target_dir_of c f out) f (join1 (target_dir_of c f out) (name f)) 1, s)"
  by (simp add: create_hybrid_structure_def Let_def mkdir_parents_existing)



lemma link_file_planned:
  assumes "create_hybrid_structure c f out False s = (Inr t, s1)"
  shows "link_file False out c f s =
           (case os_symlink f t s1 of Inl e \<Rightarrow> (handler e, s1) | Inr s2 \<Rightarrow> (Created t, s2))"
  using assms by (simp add: link_file_def)

subsection \<open>The outcomes of a batch\<close>













section \<open>Two files of the same name\<close>

subsection \<open>What stays visible when entries are added\<close>

lemma stat_fuel_extends:
  "extends s s' \<Longrightarrow> stat_fuel n s p = Inr x \<Longrightarrow> stat_fuel n s' p = Inr x"
proof (induction n arbitrary: p)
  case 0
  then show ?case by simp
next
  case (Suc n)
  from Suc.prems(2) have r: "\<not> unreadable s p" by (auto split: if_splits)
  with Suc.prems(1) have r': "\<not> unreadable s' p" by (simp add: extends_def)
  from Suc.prems(2) r obtain nd where nd: "lookup s p = Some nd"
    by (auto split: option.splits)
  with Suc.prems(1) have nd': "lookup s' p = Some nd" by (auto simp: extends_def)
  show ?case
  proof (cases nd)
    case (Link src)
    with nd r Suc.prems(2) have "stat_fuel n s (link_referent p src) = Inr x" by simp
    with Suc.IH [OF Suc.prems(1)] nd' r' Link show ?thesis by simp
  next
    case Dir
    with nd nd' r r' Suc.prems(2) show ?thesis by simp
  next
    case File
    with nd nd' r r' Suc.prems(2) show ?thesis by simp
  qed
qed

lemma is_dir_extends: "extends s s' \<Longrightarrow> is_dir s p = Inr True \<Longrightarrow> is_dir s' p = Inr True"
  unfolding is_dir_stat os_stat_def by (rule stat_fuel_extends)

lemma path_exists_extends:
  "extends s s' \<Longrightarrow> path_exists s p = Inr True \<Longrightarrow> path_exists s' p = Inr True"
proof -
  assume ext: "extends s s'" and "path_exists s p = Inr True"
  then obtain nd where "stat_fuel (Suc MAXSYMLINKS) s p = Inr nd"
    by (auto simp: path_exists_def os_stat_def simp del: stat_fuel.simps
        split: sum.splits if_splits)
  from stat_fuel_extends [OF ext this] show ?thesis
    by (simp add: path_exists_def os_stat_def del: stat_fuel.simps)
qed

lemma link_to_file_exists:
  assumes "lookup s p = Some (Link src)" and "\<not> unreadable s p"
    and "lookup s (link_referent p src) = Some File" and "\<not> unreadable s (link_referent p src)"
  shows "path_exists s p = Inr True"
proof -
  have "\<exists>n. MAXSYMLINKS = Suc n" by (simp add: MAXSYMLINKS_def)
  then obtain n where n: "MAXSYMLINKS = Suc n" ..
  from assms show ?thesis by (simp add: path_exists_def os_stat_def n)
qed

lemma lookup_None_not_exists:
  "lookup s p = None \<Longrightarrow> \<not> unreadable s p \<Longrightarrow> path_exists s p = Inr False"
  by (simp add: path_exists_def os_stat_def ignore_error_def)

subsection \<open>Directories that were made\<close>

lemma os_mkdir_is_dir: "os_mkdir p s = Inr s' \<Longrightarrow> is_dir s' p = Inr True"
  by (auto simp: os_mkdir_def is_dir_stat os_stat_def lookup_add_entry unreadable_add_entry
      dest!: create_entry_Inr)

lemma exist_ok_is_dir: "exist_ok e p s = (None, s') \<Longrightarrow> is_dir s' p = Inr True"
  by (auto simp: exist_ok_def split: sum.splits if_splits)

lemma mkdir_parents_is_dir:
  assumes "mkdir_parents p s = (None, s')"
  shows "is_dir s' p = Inr True"
proof (cases "os_mkdir p s")
  case (Inr s1)
  with assms have "s' = s1" by (subst (asm) mkdir_parents.simps) simp
  with Inr show ?thesis by (simp add: os_mkdir_is_dir)
next
  case (Inl e)
  show ?thesis
  proof (cases "e = FileNotFoundError")
    case False
    with Inl assms have "exist_ok e p s = (None, s')"
      by (subst (asm) mkdir_parents.simps) simp
    then show ?thesis by (rule exist_ok_is_dir)
  next
    case True
    obtain r1 s1 where rec: "mkdir_parents (parent p) s = (r1, s1)" by force
    from True Inl assms rec have up: "parent p \<noteq> p" and r1: "r1 = None"
      by (subst (asm) mkdir_parents.simps, auto split: if_splits option.splits)+
    show ?thesis
    proof (cases "os_mkdir p s1")
      case (Inr s2)
      with True Inl assms rec up r1 have "s' = s2"
        by (subst (asm) mkdir_parents.simps) simp
      with Inr show ?thesis by (simp add: os_mkdir_is_dir)
    next
      case (Inl e2)
      with True \<open>os_mkdir p s = Inl e\<close> assms rec up r1
      have "e2 \<noteq> FileNotFoundError \<and> exist_ok e2 p s1 = (None, s')"
        by (subst (asm) mkdir_parents.simps) (auto split: if_splits)
      then show ?thesis by (auto dest: exist_ok_is_dir)
    qed
  qed
qed

subsection \<open>A link that can be made\<close>

lemma str_nat_1: "str_nat (Suc 0) = ''1''"
  by (subst str_nat.simps) (simp add: digit_char_def)

lemma numbered_name_same: "name f2 = name f1 \<Longrightarrow> numbered_name f2 k = numbered_name f1 k"
  by (simp add: numbered_name_def stem_def path_suffix_def)

lemma os_symlink_free:
  assumes "lookup s t = None" and "\<not> unreadable s t" and "\<not> denied s t"
    and "is_dir s (parent t) = Inr True"
  shows "os_symlink f t s = Inr (add_entry t (Link f) s)"
  using assms by (simp add: os_symlink_def create_entry_def is_dir_stat)

text \<open>
  A live \<open>link_file\<close> when the target directory is there and the planner returns a
  name that is free.
\<close>

lemma link_file_creates:
  assumes dir: "is_dir s (target_dir_of c f out) = Inr True"
    and plan: "unique_target s (target_dir_of c f out) f
        (join1 (target_dir_of c f out) (name f)) 1 = Inr t"
    and parent: "parent t = target_dir_of c f out"
    and free: "lookup s t = None" "\<not> denied s t"
  shows "link_file False out c f s = (Created t, add_entry t (Link f) s)"
proof -
  from plan have "\<not> unreadable s t" by (auto dest: unique_target_free path_exists_readable)
  with free dir parent have "os_symlink f t s = Inr (add_entry t (Link f) s)"
    by (simp add: os_symlink_free)
  with create_hybrid_structure_existing [OF dir] plan show ?thesis
    by (simp add: link_file_def)
qed

lemma link_file_mkdir:
  assumes "mkdir_parents (target_dir_of c f out) s = (None, s0)"
  shows "link_file False out c f s = link_file False out c f s0"
proof -
  from assms have "is_dir s0 (target_dir_of c f out) = Inr True" by (rule mkdir_parents_is_dir)
  from create_hybrid_structure_existing [OF this] assms show ?thesis
    by (simp add: link_file_def create_hybrid_structure_def Let_def)
qed

definition relative :: "string list \<Rightarrow> path" where
  "relative xs = \<lparr>drive = [], root = [], tail = xs\<rparr>"

definition notes_tree :: "(path \<times> node) list" where
  "notes_tree =
     [(posix [], Dir), (posix [''out''], Dir),
      (posix [''a''], Dir), (posix [''a'', ''Docs''], Dir),
      (posix [''a'', ''Docs'', ''README''], File),
      (posix [''b''], Dir), (posix [''b'', ''Docs''], Dir),
      (posix [''b'', ''Docs'', ''README''], File)]"

text \<open>
  Claim C9, as amended. Two source files have the same file name and the same target
  directory (same category, same parent folder name). The output tree starts without
  the canonical name and without the name numbered 1 in that directory, the directory is
  there or can be made, the operating system resolves both names and allows entries
  under them, and the first source, read as the text of its link from the target
  directory, is a regular file. Then a live run over the two files creates both links:
  the first at \<open>dir/name\<close>, the second at \<open>dir/stem_1ext\<close>, both links are in the tree
  afterwards, under different paths, and a name without an extension is numbered as
  \<open>name_1\<close>, with nothing after the counter.
\<close>

theorem collision_suffix:
  assumes same_name: "name f2 = name f1" and named: "name f1 \<noteq> []"
    and same_dir: "target_dir_of c f2 out = target_dir_of c f1 out"
    and free0: "lookup s (join1 (target_dir_of c f1 out) (name f1)) = None"
    and free1: "lookup s (join1 (target_dir_of c f1 out) (numbered_name f1 1)) = None"
    and made: "fst (mkdir_parents (target_dir_of c f1 out) s) = None"
    and allowed: "\<not> denied s (join1 (target_dir_of c f1 out) (name f1))"
       "\<not> denied s (join1 (target_dir_of c f1 out) (numbered_name f1 1))"
    and resolved: "\<not> unreadable s (join1 (target_dir_of c f1 out) (name f1))"
       "\<not> unreadable s (join1 (target_dir_of c f1 out) (numbered_name f1 1))"
    and source: "lookup s (link_referent (join1 (target_dir_of c f1 out) (name f1)) f1) = Some File"
       "\<not> unreadable s (link_referent (join1 (target_dir_of c f1 out) (name f1)) f1)"
  shows "file_outcomes False out c [f1, f2] s =
       [(f1, Created (join1 (target_dir_of c f1 out) (name f1))),
        (f2, Created (join1 (target_dir_of c f1 out) (stem f1 @ ''_1'' @ path_suffix f1)))]
    \<and> fst (link_files False out c [f1, f2] (st, s)) = st\<lparr>created := created st + 2\<rparr>
    \<and> lookup (snd (link_files False out c [f1, f2] (st, s)))
         (join1 (target_dir_of c f1 out) (name f1)) = Some (Link f1)
    \<and> lookup (snd (link_files False out c [f1, f2] (st, s)))
         (join1 (target_dir_of c f1 out) (stem f1 @ ''_1'' @ path_suffix f1)) = Some (Link f2)
    \<and> join1 (target_dir_of c f1 out) (name f1)
         \<noteq> join1 (target_dir_of c f1 out) (stem f1 @ ''_1'' @ path_suffix f1)
    \<and> (path_suffix f1 = [] \<longrightarrow> stem f1 @ ''_1'' @ path_suffix f1 = name f1 @ ''_1'')"
proof -
  let ?d = "target_dir_of c f1 out"
  let ?canon = "join1 ?d (name f1)"
  let ?next = "join1 ?d (numbered_name f1 1)"
  have nn: "numbered_name f1 (Suc 0) = stem f1 @ ''_1'' @ path_suffix f1"
    by (simp add: numbered_name_def str_nat_1)
  have neq: "?canon \<noteq> ?next"
    using join1_inj [OF named numbered_name_nonempty, of ?d f1 1] numbered_name_neq_name [of f1 1]
    by auto
  have deep0: "length (tail ?d) < length (tail ?canon)" using named by (simp add: length_tail_join1)
  have deep1: "length (tail ?d) < length (tail ?next)"
    by (simp add: length_tail_join1 numbered_name_nonempty)
  have par0: "parent ?canon = ?d" using named by (simp add: parent_join1)
  have par1: "parent ?next = ?d" by (simp add: parent_join1 numbered_name_nonempty)
  \<comment> \<open>the directory\<close>
  from made obtain s0 where mk: "mkdir_parents ?d s = (None, s0)"
    by (cases "mkdir_parents ?d s") simp
  then have ext0: "extends s s0" by (rule mkdir_parents_extends)
  from mk have dir0: "is_dir s0 ?d = Inr True" by (rule mkdir_parents_is_dir)
  from mkdir_parents_deeper [OF mk deep0] free0 have free0': "lookup s0 ?canon = None" by simp
  from mkdir_parents_deeper [OF mk deep1] free1 have free1': "lookup s0 ?next = None" by simp
  from ext0 have same0: "denied s0 = denied s" "unreadable s0 = unreadable s"
    by (simp_all add: extends_def)
  \<comment> \<open>the first file\<close>
  have plan1: "unique_target s0 ?d f1 ?canon 1 = Inr ?canon"
    using free0' resolved(1) by (simp add: unique_target_stop lookup_None_not_exists same0)
  define s1 where "s1 = add_entry ?canon (Link f1) s0"
  have "link_file False out c f1 s0 = (Created ?canon, s1)"
    unfolding s1_def using dir0 plan1 par0 free0' allowed(1)
    by (intro link_file_creates) (simp_all add: same0)
  with link_file_mkdir [OF mk] have first: "link_file False out c f1 s = (Created ?canon, s1)"
    by simp
  have ext1: "extends s0 s1"
    using free0' by (auto simp: s1_def extends_def lookup_add_entry denied_add_entry
        unreadable_add_entry)
  from ext0 ext1 have ext: "extends s s1" by (rule extends_trans)
  then have same1: "denied s1 = denied s" "unreadable s1 = unreadable s"
    by (simp_all add: extends_def)
  have l0: "lookup s1 ?canon = Some (Link f1)" by (simp add: s1_def lookup_add_entry)
  from neq free1' have l1: "lookup s1 ?next = None" by (simp add: s1_def lookup_add_entry)
  from dir0 ext1 have dir1: "is_dir s1 (target_dir_of c f2 out) = Inr True"
    by (simp add: same_dir is_dir_extends)
  \<comment> \<open>the second file\<close>
  from source(1) ext have "lookup s1 (link_referent ?canon f1) = Some File"
    by (auto simp: extends_def)
  with l0 resolved(1) source(2) have seen: "path_exists s1 ?canon = Inr True"
    by (intro link_to_file_exists [where src = f1]) (simp_all add: same1)
  have nn2: "numbered_name f2 1 = numbered_name f1 1" using same_name by (rule numbered_name_same)
  have "unique_target s1 ?d f2 ?canon 1 =
      unique_target s1 ?d f2 (join1 ?d (numbered_name f2 1)) (1 + 1)"
    using seen by (rule unique_target_step)
  also have "\<dots> = Inr ?next"
    unfolding nn2 using l1 resolved(2)
    by (intro unique_target_stop lookup_None_not_exists) (simp_all add: same1)
  finally have plan2: "unique_target s1 (target_dir_of c f2 out) f2
      (join1 (target_dir_of c f2 out) (name f2)) 1 = Inr ?next"
    by (simp add: same_dir same_name)
  define s2 where "s2 = add_entry ?next (Link f2) s1"
  have second: "link_file False out c f2 s1 = (Created ?next, s2)"
    unfolding s2_def using dir1 plan2 par1 l1 allowed(2)
    by (intro link_file_creates) (simp_all add: same1 same_dir)
  have k0: "lookup s2 ?canon = Some (Link f1)"
    using neq l0 by (simp add: s2_def lookup_add_entry)
  have k1: "lookup s2 ?next = Some (Link f2)" by (simp add: s2_def lookup_add_entry)
  have "stem f1 @ path_suffix f1 = name f1" by (rule name_stem_suffix)
  then have plain: "path_suffix f1 = [] \<longrightarrow> stem f1 @ ''_1'' @ path_suffix f1 = name f1 @ ''_1''"
    by auto
  have run: "link_files False out c [f1, f2] (st, s) = (st\<lparr>created := created st + 2\<rparr>, s2)"
    by (simp add: first second count_outcome_def)
  have outcomes: "file_outcomes False out c [f1, f2] s = [(f1, Created ?canon), (f2, Created ?next)]"
    by (simp add: first second)
  from run outcomes k0 k1 neq plain show ?thesis
    unfolding nn [symmetric] by simp
qed
theorem collision_suffix_witness:
  "file_outcomes False (posix [''out'']) ''pictures''
      [posix [''a'', ''Photos'', ''img.jpg''], posix [''b'', ''Photos'', ''img.jpg'']]
      (volume photo_tree) =
     [(posix [''a'', ''Photos'', ''img.jpg''],
         Created (posix [''out'', ''pictures'', ''Photos'', ''img.jpg''])),
      (posix [''b'', ''Photos'', ''img.jpg''],
         Created (posix [''out'', ''pictures'', ''Photos'', ''img_1.jpg'']))]
   \<and> lookup (snd (link_files False (posix [''out'']) ''pictures''
          [posix [''a'', ''Photos'', ''img.jpg''], posix [''b'', ''Photos'', ''img.jpg'']]
          (\<lparr>created = 0, failed = 0, skipped = 0\<rparr>, volume photo_tree)))
        (posix [''out'', ''pictures'', ''Photos'', ''img.jpg''])
     = Some (Link (posix [''a'', ''Photos'', ''img.jpg'']))
   \<and> lookup (snd (link_files False (posix [''out'']) ''pictures''
          [posix [''a'', ''Photos'', ''img.jpg''], posix [''b'', ''Photos'', ''img.jpg'']]
          (\<lparr>created = 0, failed = 0, skipped = 0\<rparr>, volume photo_tree)))
        (posix [''out'', ''pictures'', ''Photos'', ''img_1.jpg''])
     = Some (Link (posix [''b'', ''Photos'', ''img.jpg'']))
   \<and> file_outcomes False (posix [''out'']) ''text''
      [posix [''a'', ''Docs'', ''README''], posix [''b'', ''Docs'', ''README'']]
      (volume notes_tree) =
     [(posix [''a'', ''Docs'', ''README''], Created (posix [''out'', ''text'', ''Docs'', ''README''])),
      (posix [''b'', ''Docs'', ''README''], Created (posix [''out'', ''text'', ''Docs'', ''README_1'']))]"
proof -
  let ?f1 = "posix [''a'', ''Photos'', ''img.jpg'']" and ?f2 = "posix [''b'', ''Photos'', ''img.jpg'']"
  let ?g1 = "posix [''a'', ''Docs'', ''README'']" and ?g2 = "posix [''b'', ''Docs'', ''README'']"
  let ?out = "posix [''out'']" and ?s = "volume photo_tree" and ?n = "volume notes_tree"
  let ?z = "\<lparr>created = 0, failed = 0, skipped = 0\<rparr>"
  have any: "\<not> denied ?s p" "\<not> unreadable ?s p" "\<not> denied ?n p" "\<not> unreadable ?n p" for p
    by (simp_all add: volume_def)
  have h1: "name ?f2 = name ?f1" and h2: "name ?f1 \<noteq> []"
    and h3: "target_dir_of ''pictures'' ?f2 ?out = target_dir_of ''pictures'' ?f1 ?out"
    and h4: "lookup ?s (join1 (target_dir_of ''pictures'' ?f1 ?out) (name ?f1)) = None"
    and h5: "lookup ?s (join1 (target_dir_of ''pictures'' ?f1 ?out) (numbered_name ?f1 1)) = None"
    and h6: "fst (mkdir_parents (target_dir_of ''pictures'' ?f1 ?out) ?s) = None"
    and h7: "lookup ?s (link_referent (join1 (target_dir_of ''pictures'' ?f1 ?out) (name ?f1)) ?f1)
       = Some File"
    by code_simp+
  have c: "join1 (target_dir_of ''pictures'' ?f1 ?out) (name ?f1)
       = posix [''out'', ''pictures'', ''Photos'', ''img.jpg'']"
    "join1 (target_dir_of ''pictures'' ?f1 ?out) (stem ?f1 @ ''_1'' @ path_suffix ?f1)
       = posix [''out'', ''pictures'', ''Photos'', ''img_1.jpg'']"
    by code_simp+
  have k1: "name ?g2 = name ?g1" and k2: "name ?g1 \<noteq> []"
    and k3: "target_dir_of ''text'' ?g2 ?out = target_dir_of ''text'' ?g1 ?out"
    and k4: "lookup ?n (join1 (target_dir_of ''text'' ?g1 ?out) (name ?g1)) = None"
    and k5: "lookup ?n (join1 (target_dir_of ''text'' ?g1 ?out) (numbered_name ?g1 1)) = None"
    and k6: "fst (mkdir_parents (target_dir_of ''text'' ?g1 ?out) ?n) = None"
    and k7: "lookup ?n (link_referent (join1 (target_dir_of ''text'' ?g1 ?out) (name ?g1)) ?g1)
       = Some File"
    and k8: "path_suffix ?g1 = []"
    by code_simp+
  have d: "join1 (target_dir_of ''text'' ?g1 ?out) (name ?g1) = posix [''out'', ''text'', ''Docs'', ''README'']"
    "join1 (target_dir_of ''text'' ?g1 ?out) (name ?g1 @ ''_1'')
       = posix [''out'', ''text'', ''Docs'', ''README_1'']"
    by code_simp+
  note photos = collision_suffix [OF h1 h2 h3 h4 h5 h6 any(1) any(1) any(2) any(2) h7 any(2),
      of ?z, unfolded c]
  note docs = collision_suffix [OF k1 k2 k3 k4 k5 k6 any(3) any(3) any(4) any(4) k7 any(4), of ?z]
  from docs k8 have "stem ?g1 @ ''_1'' @ path_suffix ?g1 = name ?g1 @ ''_1''" by blast
  with docs have "file_outcomes False ?out ''text'' [?g1, ?g2] ?n =
     [(?g1, Created (posix [''out'', ''text'', ''Docs'', ''README''])),
      (?g2, Created (posix [''out'', ''text'', ''Docs'', ''README_1'']))]"
    by (simp only: d)
  with photos show ?thesis by blast
qed

text \<open>
  When the canonical name is taken before the run, by the link of an earlier run, the
  first file is given the name numbered 1 and the second the name numbered 2. When the
  operating system refuses the links, neither file is linked, and the second file is
  planned the canonical name. When the sources are relative paths, the first link is
  made and names nothing, \<^verbatim>\<open>exists()\<close> does not see it, and the second file is
  planned the canonical name again and skipped.
\<close>

theorem canonical_not_first:
  "run_outcomes False (posix [''out'']) two_photos (volume relinked_tree) =
     [(posix [''a'', ''Photos'', ''img.jpg''],
         Created (posix [''out'', ''pictures'', ''Photos'', ''img_1.jpg''])),
      (posix [''b'', ''Photos'', ''img.jpg''],
         Created (posix [''out'', ''pictures'', ''Photos'', ''img_2.jpg'']))]
   \<and> run_outcomes False (posix [''out'']) two_photos (readonly_volume prepared_tree) =
     [(posix [''a'', ''Photos'', ''img.jpg''], Failed PermissionError),
      (posix [''b'', ''Photos'', ''img.jpg''], Failed PermissionError)]
   \<and> fst (create_hybrid_structure ''pictures'' (posix [''b'', ''Photos'', ''img.jpg''])
         (posix [''out'']) False (readonly_volume prepared_tree))
      = Inr (posix [''out'', ''pictures'', ''Photos'', ''img.jpg''])
   \<and> file_outcomes False (posix [''out'']) ''pictures''
        [relative [''a'', ''Photos'', ''img.jpg''], relative [''b'', ''Photos'', ''img.jpg'']]
        (volume photo_tree) =
     [(relative [''a'', ''Photos'', ''img.jpg''],
         Created (posix [''out'', ''pictures'', ''Photos'', ''img.jpg''])),
      (relative [''b'', ''Photos'', ''img.jpg''], Skipped)]"
  by code_simp
section \<open>A second run\<close>

text \<open>
  Claim C1, as amended. A live run never removes or replaces an entry, so a second run
  keeps every link of the first. It does not skip a file that is linked already: when the
  target directory exists and the canonical target of the file is visible to
  \<^verbatim>\<open>exists()\<close>, the planner passes over the taken names to the first numbered name
  that \<^verbatim>\<open>exists()\<close> does not report as taken, which differs from the canonical target.
  When \<^verbatim>\<open>exists()\<close> raises for that name, the outcome is \<open>Failed\<close> with the error
  raised. Otherwise the outcome is \<open>Created\<close>, with a new link under the numbered name,
  unless the operating system refuses the link (\<open>Failed\<close>) or an entry that
  \<^verbatim>\<open>exists()\<close> does not see is at the numbered name (\<open>Skipped\<close>).
\<close>

theorem relink_existing:
  assumes dir: "is_dir s (target_dir_of c f out) = Inr True"
    and linked: "path_exists s (join1 (target_dir_of c f out) (name f)) = Inr True"
  shows "(\<exists>k\<ge>1.
      (\<forall>j. 1 \<le> j \<and> j < k \<longrightarrow>
          path_exists s (join1 (target_dir_of c f out) (numbered_name f j)) = Inr True)
      \<and> path_exists s (join1 (target_dir_of c f out) (numbered_name f k)) \<noteq> Inr True
      \<and> join1 (target_dir_of c f out) (numbered_name f k) \<noteq> join1 (target_dir_of c f out) (name f)
      \<and> link_file False out c f s =
          (case path_exists s (join1 (target_dir_of c f out) (numbered_name f k)) of
             Inl e \<Rightarrow> (Failed e, s)
           | Inr b \<Rightarrow>
               if lookup s (join1 (target_dir_of c f out) (numbered_name f k)) \<noteq> None
               then (Skipped, s)
               else if denied s (join1 (target_dir_of c f out) (numbered_name f k))
               then (Failed PermissionError, s)
               else (Created (join1 (target_dir_of c f out) (numbered_name f k)),
                     add_entry (join1 (target_dir_of c f out) (numbered_name f k)) (Link f) s)))
    \<and> (\<forall>p. lookup s p \<noteq> None \<longrightarrow>
          lookup (snd (create_symbolic_links fbc out False s)) p = lookup s p)"
proof -
  let ?d = "target_dir_of c f out"
  let ?canon = "join1 ?d (name f)"
  from unique_target_numbered [OF linked, of 1 ?d f] obtain k where k: "1 \<le> k"
    "\<forall>j. 1 \<le> j \<and> j < k \<longrightarrow> path_exists s (join1 ?d (numbered_name f j)) = Inr True"
    "path_exists s (join1 ?d (numbered_name f k)) \<noteq> Inr True"
    "unique_target s ?d f ?canon 1 =
       (case path_exists s (join1 ?d (numbered_name f k)) of
          Inl e \<Rightarrow> Inl e
        | Inr b \<Rightarrow> Inr (join1 ?d (numbered_name f k)))"
    by blast
  define t where "t = join1 ?d (numbered_name f k)"
  from k(3) linked have neq: "t \<noteq> ?canon" unfolding t_def by metis
  note plan = create_hybrid_structure_existing [OF dir]
  have par: "parent t = ?d"
    by (simp add: t_def parent_join1 numbered_name_nonempty)
  have "link_file False out c f s =
      (case path_exists s t of
         Inl e \<Rightarrow> (Failed e, s)
       | Inr b \<Rightarrow>
           if lookup s t \<noteq> None then (Skipped, s)
           else if denied s t then (Failed PermissionError, s)
           else (Created t, add_entry t (Link f) s))"
  proof (cases s t rule: path_exists_cases)
    case seen
    with k(3) show ?thesis by (simp add: t_def)
  next
    case (raised e)
    then have "e = PermissionError" by (auto dest: path_exists_error)
    with raised plan k(4) show ?thesis
      by (simp add: link_file_def t_def [symmetric] handler_def)
  next
    case free
    then have r: "\<not> unreadable s t" by (rule path_exists_readable)
    from free plan k(4) have "create_hybrid_structure c f out False s = (Inr t, s)"
      by (simp add: t_def [symmetric])
    from link_file_planned [OF this] dir r free show ?thesis
      by (simp add: os_symlink_def create_entry_def par is_dir_stat handler_def)
  qed
  with k(1,2,3) neq have one: "\<exists>k\<ge>1.
      (\<forall>j. 1 \<le> j \<and> j < k \<longrightarrow> path_exists s (join1 ?d (numbered_name f j)) = Inr True)
      \<and> path_exists s (join1 ?d (numbered_name f k)) \<noteq> Inr True
      \<and> join1 ?d (numbered_name f k) \<noteq> ?canon
      \<and> link_file False out c f s =
          (case path_exists s (join1 ?d (numbered_name f k)) of
             Inl e \<Rightarrow> (Failed e, s)
           | Inr b \<Rightarrow>
               if lookup s (join1 ?d (numbered_name f k)) \<noteq> None then (Skipped, s)
               else if denied s (join1 ?d (numbered_name f k)) then (Failed PermissionError, s)
               else (Created (join1 ?d (numbered_name f k)),
                     add_entry (join1 ?d (numbered_name f k)) (Link f) s))"
    unfolding t_def by (intro exI [of _ k]) simp
  have "extends s (snd (create_symbolic_links fbc out False s))"
    unfolding create_symbolic_links_def by (rule link_categories_extends)
  then have kept: "\<forall>p. lookup s p \<noteq> None \<longrightarrow>
      lookup (snd (create_symbolic_links fbc out False s)) p = lookup s p"
    by (simp add: extends_def)
  from one kept show ?thesis by blast
qed

theorem relink_existing_witness:
  "link_file False (posix [''out'']) ''pictures'' (posix [''a'', ''Photos'', ''img.jpg''])
      (volume relinked_tree)
     = (Created (posix [''out'', ''pictures'', ''Photos'', ''img_1.jpg'']),
        add_entry (posix [''out'', ''pictures'', ''Photos'', ''img_1.jpg''])
          (Link (posix [''a'', ''Photos'', ''img.jpg''])) (volume relinked_tree))"
proof -
  let ?f = "posix [''a'', ''Photos'', ''img.jpg'']" and ?out = "posix [''out'']"
  let ?s = "volume relinked_tree"
  let ?d = "target_dir_of ''pictures'' ?f ?out"
  have d: "is_dir ?s ?d = Inr True" and l: "path_exists ?s (join1 ?d (name ?f)) = Inr True"
    by code_simp+
  from relink_existing [OF d l, of one_photo] obtain k where k: "1 \<le> k"
    "\<forall>j. 1 \<le> j \<and> j < k \<longrightarrow> path_exists ?s (join1 ?d (numbered_name ?f j)) = Inr True"
    "link_file False ?out ''pictures'' ?f ?s =
       (case path_exists ?s (join1 ?d (numbered_name ?f k)) of
          Inl e \<Rightarrow> (Failed e, ?s)
        | Inr b \<Rightarrow>
            if lookup ?s (join1 ?d (numbered_name ?f k)) \<noteq> None then (Skipped, ?s)
            else if denied ?s (join1 ?d (numbered_name ?f k)) then (Failed PermissionError, ?s)
            else (Created (join1 ?d (numbered_name ?f k)),
                  add_entry (join1 ?d (numbered_name ?f k)) (Link ?f) ?s))"
    by blast
  have n1: "path_exists ?s (join1 ?d (numbered_name ?f (Suc 0))) = Inr False" by code_simp
  from k(2) [rule_format, of "Suc 0"] n1 have "\<not> Suc 0 < k" by auto
  with k(1) have k1: "k = Suc 0" by simp
  have free: "lookup ?s (join1 ?d (numbered_name ?f (Suc 0))) = None"
    and t: "join1 ?d (numbered_name ?f (Suc 0)) = posix [''out'', ''pictures'', ''Photos'', ''img_1.jpg'']"
    by code_simp+
  have allowed: "\<not> denied ?s (posix [''out'', ''pictures'', ''Photos'', ''img_1.jpg''])"
    by (simp add: volume_def)
  from k(3) n1 free allowed show ?thesis unfolding k1 by (simp add: t)
qed

text \<open>
  The source tree \<^verbatim>\<open>/a\<close> holds one photo and does not change, so every scan of it
  returns the same inventory. The first live run creates one link; the second run
  creates one more, \<^verbatim>\<open>img_1.jpg\<close>, and skips nothing.
\<close>

theorem second_run_creates_again:
  "scan_for_files [(posix [''a''], DirNode ''a'' True photo_folder)] None = Some one_photo
   \<and> created (fst (create_symbolic_links one_photo (posix [''out'']) False (volume photo_tree))) = 1
   \<and> created (fst (create_symbolic_links one_photo (posix [''out'']) False
        (snd (create_symbolic_links one_photo (posix [''out'']) False (volume photo_tree))))) = 1
   \<and> skipped (fst (create_symbolic_links one_photo (posix [''out'']) False
        (snd (create_symbolic_links one_photo (posix [''out'']) False (volume photo_tree))))) = 0
   \<and> run_outcomes False (posix [''out'']) one_photo
        (snd (create_symbolic_links one_photo (posix [''out'']) False (volume photo_tree)))
      = [(posix [''a'', ''Photos'', ''img.jpg''],
          Created (posix [''out'', ''pictures'', ''Photos'', ''img_1.jpg'']))]"
  by code_simp
section \<open>Fault isolation of the scan\<close>



subsection \<open>One step of each loop\<close>







declare scan_files.simps(2) [simp del] walk_dirs.simps(3) [simp del] scan_drives.simps(2) [simp del]

subsection \<open>What was found stays found\<close>







subsection \<open>Exceptions that are caught\<close>







subsection \<open>The files that a scan is to find\<close>








subsection \<open>A walk that no exception leaves\<close>














end
